theory Spec2Isabelle
  imports Main
begin

section \<open>Image-reference resolution of \<^verbatim>\<open>sync_ob_posts.py\<close>\<close>

text \<open>
  The development embeds the three core methods of \<^verbatim>\<open>ObsidianPostSync\<close>
  (\<^verbatim>\<open>_locate_image_by_token\<close>, \<^verbatim>\<open>_copy_image_to_image_dir\<close> and
  \<^verbatim>\<open>_process_single_markdown\<close> with its two replacement callbacks) together with
  the library operations they call (\<^verbatim>\<open>str.strip\<close>, \<^verbatim>\<open>str.startswith\<close>,
  \<^verbatim>\<open>PurePath.name/.stem/.suffix\<close>, \<^verbatim>\<open>Path.rglob\<close>, \<^verbatim>\<open>re.sub\<close>).

  Conventions of the model.
  \<^item> A Python \<^verbatim>\<open>str\<close> is a \<^typ>\<open>string\<close>; each \<^typ>\<open>char\<close> stands for one code point
    in the range U+0000 .. U+00FF. File contents are strings as well.
  \<^item> Paths follow POSIX rules (separator \<^verbatim>\<open>/\<close>), and \<^verbatim>\<open>suffix\<close>/\<^verbatim>\<open>stem\<close> follow the
    pathlib rule \<^verbatim>\<open>0 < i < len(name) - 1\<close> for the last dot.
  \<^item> The attachment directory exists and is a tree of regular files and directories
    (no symbolic links); it is read-only during a pass. File names are compared exactly.
  \<^item> \<^verbatim>\<open>rglob\<close> visits directories in the order of CPython up to 3.12; its answer to a
    pattern with wildcard characters is a parameter of the model.
  \<^item> Operating-system failures other than opening a directory for reading
    (permissions, full disk, over-long names) are not modelled.
\<close>

subsection \<open>Strings\<close>

definition py_isspace :: "char \<Rightarrow> bool" where
  \<comment> \<open>\<^verbatim>\<open>str.isspace\<close> on the code points below 256\<close>
  "py_isspace c = (of_char c \<in> {9, 10, 11, 12, 13, 28, 29, 30, 31, 32, 133, 160 :: nat})"

definition strip_with :: "(char \<Rightarrow> bool) \<Rightarrow> string \<Rightarrow> string" where
  "strip_with P s = rev (dropWhile P (rev (dropWhile P s)))"

definition py_strip :: "string \<Rightarrow> string" where
  \<comment> \<open>\<^verbatim>\<open>s.strip()\<close>\<close>
  "py_strip s = strip_with py_isspace s"

definition strip_chars :: "string \<Rightarrow> string \<Rightarrow> string" where
  \<comment> \<open>\<^verbatim>\<open>s.strip(chars)\<close>\<close>
  "strip_chars chars s = strip_with (\<lambda>c. c \<in> set chars) s"

definition startswith :: "string \<Rightarrow> string \<Rightarrow> bool" where
  \<comment> \<open>\<^verbatim>\<open>s.startswith(p)\<close>\<close>
  "startswith s p = (take (length p) s = p)"

definition is_digit :: "char \<Rightarrow> bool" where
  \<comment> \<open>the class \<^verbatim>\<open>\d\<close> on the code points below 256\<close>
  "is_digit c = (48 \<le> (of_char c :: nat) \<and> (of_char c :: nat) \<le> 57)"

definition digit_char :: "nat \<Rightarrow> char" where
  "digit_char d = char_of (48 + d)"

fun str_nat :: "nat \<Rightarrow> string" where
  \<comment> \<open>\<^verbatim>\<open>str(n)\<close> for a non-negative integer\<close>
  "str_nat n = (if n < 10 then [digit_char n] else str_nat (n div 10) @ [digit_char (n mod 10)])"

declare str_nat.simps [simp del]

fun split_sep :: "char \<Rightarrow> string \<Rightarrow> string list" where
  \<comment> \<open>\<^verbatim>\<open>s.split(sep)\<close> for a one-character separator\<close>
  "split_sep sep [] = [[]]"
| "split_sep sep (c # cs) =
     (if c = sep then [] # split_sep sep cs
      else (case split_sep sep cs of [] \<Rightarrow> [[c]] | w # ws \<Rightarrow> (c # w) # ws))"

subsection \<open>Pure path operations\<close>

definition path_parts :: "string \<Rightarrow> string list" where
  \<comment> \<open>the components pathlib keeps: empty components and \<^verbatim>\<open>.\<close> are dropped\<close>
  "path_parts s = filter (\<lambda>x. x \<noteq> [] \<and> x \<noteq> ''.'') (split_sep (CHR ''/'') s)"

definition path_name :: "string \<Rightarrow> string" where
  \<comment> \<open>\<^verbatim>\<open>Path(s).name\<close>\<close>
  "path_name s = (case path_parts s of [] \<Rightarrow> [] | p # ps \<Rightarrow> last (p # ps))"

definition py_suffix :: "string \<Rightarrow> string" where
  \<comment> \<open>\<^verbatim>\<open>PurePath.suffix\<close> of a file name: \<^verbatim>\<open>i = name.rfind('.')\<close>,
      \<^verbatim>\<open>name[i:]\<close> if \<^verbatim>\<open>0 < i < len(name) - 1\<close>, else the empty string\<close>
  "py_suffix name =
     (if CHR ''.'' \<notin> set name then []
      else (let tail = rev (takeWhile (\<lambda>c. c \<noteq> CHR ''.'') (rev name));
                i = length name - length tail - 1
            in if 0 < i \<and> i < length name - 1 then drop i name else []))"

definition py_stem :: "string \<Rightarrow> string" where
  \<comment> \<open>\<^verbatim>\<open>PurePath.stem\<close> of a file name\<close>
  "py_stem name = take (length name - length (py_suffix name)) name"

subsection \<open>The file system\<close>

type_synonym content = string

datatype node = File content | Dir "(string \<times> node) list"

datatype error = IsADirectoryError | ValueError

text \<open>
  A path under the attachment directory, as \<^verbatim>\<open>_locate_image_by_token\<close> can return it:
  the directory itself (\<^verbatim>\<open>attachment_dir / ""\<close>), its parent
  (\<^verbatim>\<open>attachment_dir / ".."\<close>), or an entry given by its components below the root.
\<close>

datatype att_path = AttRoot | AttParent | AttEntry "string list"

text \<open>
  What \<^verbatim>\<open>(md_path.parent / raw_path).resolve()\<close> denotes on disk: nothing, a directory,
  a regular file outside the output image directory (with its final name and its bytes),
  or the entry of that name directly inside the output image directory, whose existence
  depends on what the pass has copied so far.
\<close>

datatype rel_target = RelMissing | RelDir | RelFile string content | RelImage string

text \<open>
  The read-only surroundings of one document: the children of the attachment directory
  in \<^verbatim>\<open>scandir\<close> order, the name of that directory, what pathlib's \<^verbatim>\<open>rglob\<close> yields
  (or raises) for a pattern with wildcard characters, and the resolution of a raw path
  relative to the document.
\<close>

record env =
  att_root :: "(string \<times> node) list"
  att_dir_name :: string
  rglob_magic :: "string \<Rightarrow> error + string list list"
  doc_rel :: "string \<Rightarrow> rel_target"

datatype event = ImageNotFound string | ImageCopied string string

text \<open>
  The mutable part: the flat output image directory (entries in creation order) and the
  diagnostics printed so far.
\<close>

record state =
  image_dir :: "(string \<times> node) list"
  diag :: "event list"

subsection \<open>Recursive search below the attachment directory\<close>

text \<open>
  \<^verbatim>\<open>attachment_dir.rglob(cand)\<close> for a name without wildcard characters: every directory
  of the tree is visited parent first, then its sub-directories in listing order, and
  each visited directory yields its child \<^verbatim>\<open>cand\<close> if it has one.
\<close>

fun rglob_node :: "string \<Rightarrow> string list \<Rightarrow> node \<Rightarrow> string list list"
  and rglob_kids :: "string \<Rightarrow> string list \<Rightarrow> (string \<times> node) list \<Rightarrow> string list list" where
  "rglob_node cand pre (File c) = []"
| "rglob_node cand pre (Dir ks) =
     (if cand \<in> set (map fst ks) then [pre @ [cand]] else []) @ rglob_kids cand pre ks"
| "rglob_kids cand pre [] = []"
| "rglob_kids cand pre ((n, t) # ks) = rglob_node cand (pre @ [n]) t @ rglob_kids cand pre ks"

definition is_magic :: "string \<Rightarrow> bool" where
  \<comment> \<open>pathlib's test for a wildcard pattern\<close>
  "is_magic pat = (CHR ''*'' \<in> set pat \<or> CHR ''?'' \<in> set pat \<or> CHR ''['' \<in> set pat)"

definition rglob :: "env \<Rightarrow> string \<Rightarrow> error + string list list" where
  "rglob e cand =
     (if is_magic cand then rglob_magic e cand else Inr (rglob_node cand [] (Dir (att_root e))))"

definition exists_under_root :: "env \<Rightarrow> string \<Rightarrow> bool" where
  \<comment> \<open>\<^verbatim>\<open>(attachment_dir / cand).exists()\<close> for a single component\<close>
  "exists_under_root e cand =
     (cand = [] \<or> cand = ''..'' \<or> cand \<in> set (map fst (att_root e)))"

definition root_path :: "string \<Rightarrow> att_path" where
  \<comment> \<open>\<^verbatim>\<open>attachment_dir / cand\<close>\<close>
  "root_path cand =
     (if cand = [] then AttRoot else if cand = ''..'' then AttParent else AttEntry [cand])"

subsection \<open>\<^verbatim>\<open>_locate_image_by_token\<close>\<close>

definition exts :: "string list" where
  "exts = [''.png'', ''.jpg'', ''.jpeg'', ''.gif'', ''.svg'', ''.webp'']"

definition candidates :: "string \<Rightarrow> string list" where
  "candidates token =
     (let name = path_name token;
          has_ext = (py_suffix name \<noteq> [])
      in if \<not> has_ext
         then [name] @ map (\<lambda>ext. name @ ext) exts
              @ map (\<lambda>ext. filter (\<lambda>c. c \<noteq> CHR ''.'') name @ ext) exts
         else [name])"

fun search_candidates :: "env \<Rightarrow> string list \<Rightarrow> error + att_path option" where
  "search_candidates e [] = Inr None"
| "search_candidates e (cand # cs) =
     (if exists_under_root e cand then Inr (Some (root_path cand))
      else (case rglob e cand of
              Inl err \<Rightarrow> Inl err
            | Inr (found # _) \<Rightarrow> Inr (Some (AttEntry found))
            | Inr [] \<Rightarrow> search_candidates e cs))"

definition locate_image_by_token :: "env \<Rightarrow> string \<Rightarrow> error + att_path option" where
  "locate_image_by_token e token = search_candidates e (candidates token)"

subsection \<open>\<^verbatim>\<open>_copy_image_to_image_dir\<close>\<close>

definition image_exists :: "(string \<times> node) list \<Rightarrow> string \<Rightarrow> bool" where
  \<comment> \<open>\<^verbatim>\<open>(image_dir / name).exists()\<close>\<close>
  "image_exists d name = (name \<in> set (map fst d))"

definition alt_name :: "string \<Rightarrow> nat \<Rightarrow> string \<Rightarrow> string" where
  \<comment> \<open>the f-string \<^verbatim>\<open>{stem}_{idx}{ext}\<close>\<close>
  "alt_name stem idx ext = stem @ ''_'' @ str_nat idx @ ext"

definition str_val :: "string \<Rightarrow> nat" where
  \<comment> \<open>reads a decimal numeral back; used only to show that \<^const>\<open>str_nat\<close> is injective\<close>
  "str_val s = foldl (\<lambda>a c. 10 * a + (of_char c - 48)) 0 s"

lemma str_val_snoc: "str_val (s @ [c]) = 10 * str_val s + (of_char c - 48)"
  by (simp add: str_val_def)

lemma of_char_digit_char: "d < 10 \<Longrightarrow> of_char (digit_char d) = 48 + d"
  by (simp add: digit_char_def)

lemma str_val_str_nat: "str_val (str_nat n) = n"
proof (induction n rule: str_nat.induct)
  case (1 n)
  show ?case
  proof (cases "n < 10")
    case True
    then show ?thesis
      by (subst str_nat.simps) (simp add: str_val_def of_char_digit_char)
  next
    case False
    then have "str_val (str_nat (n div 10)) = n div 10"
      using "1.IH" by simp
    with False show ?thesis
      by (subst str_nat.simps) (simp add: str_val_snoc of_char_digit_char)
  qed
qed

lemma str_nat_inj: "str_nat a = str_nat b \<Longrightarrow> a = b"
  by (metis str_val_str_nat)

lemma alt_name_inj: "alt_name stem a ext = alt_name stem b ext \<Longrightarrow> a = b"
  by (simp add: alt_name_def str_nat_inj)

lemma finite_taken_indices: "finite {k. alt_name stem k ext \<in> set (map fst d)}"
proof -
  have "inj (\<lambda>k. alt_name stem k ext)"
    by (rule injI) (rule alt_name_inj)
  then have "finite ((\<lambda>k. alt_name stem k ext) -` set (map fst d))"
    by (rule finite_vimageI [OF finite_set])
  then show ?thesis
    by (simp add: vimage_def)
qed

text \<open>
  The loop \<^verbatim>\<open>while True: ... idx += 1\<close>: the first index from \<^verbatim>\<open>idx\<close> on whose
  name is unused. It ends because the directory listing is finite and the names of
  different indices differ.
\<close>

function probe :: "(string \<times> node) list \<Rightarrow> string \<Rightarrow> string \<Rightarrow> nat \<Rightarrow> nat" where
  "probe d stem ext idx =
     (if image_exists d (alt_name stem idx ext) then probe d stem ext (idx + 1) else idx)"
  by pat_completeness auto
termination
proof (relation "measure (\<lambda>(d, stem, ext, idx).
          card {k. idx \<le> k \<and> alt_name stem k ext \<in> set (map fst d)})")
  show "wf (measure (\<lambda>(d, stem, ext, idx).
          card {k. idx \<le> k \<and> alt_name stem k ext \<in> set (map fst d)}))"
    by simp
next
  fix d :: "(string \<times> node) list" and stem ext :: string and idx :: nat
  assume taken: "image_exists d (alt_name stem idx ext)"
  let ?A = "\<lambda>i. {k. i \<le> k \<and> alt_name stem k ext \<in> set (map fst d)}"
  have fin: "finite (?A idx)"
    using finite_taken_indices [of stem ext d] by simp
  have "idx \<in> ?A idx" and "idx \<notin> ?A (idx + 1)"
    using taken by (simp_all add: image_exists_def)
  moreover have "?A (idx + 1) \<subseteq> ?A idx"
    by auto
  ultimately have "?A (idx + 1) \<subset> ?A idx"
    by blast
  then have "card (?A (idx + 1)) < card (?A idx)"
    using fin by (rule psubset_card_mono [rotated])
  then show "((d, stem, ext, idx + 1), (d, stem, ext, idx))
      \<in> measure (\<lambda>(d, stem, ext, idx).
          card {k. idx \<le> k \<and> alt_name stem k ext \<in> set (map fst d)})"
    by simp
qed

declare probe.simps [simp del]

definition copy2 :: "state \<Rightarrow> string \<times> node \<Rightarrow> string \<Rightarrow> error + (string \<times> state)" where
  \<comment> \<open>\<^verbatim>\<open>shutil.copy2(src, image_dir / dst)\<close> followed by the progress message; opening a
      directory for reading raises before anything is written\<close>
  "copy2 s src dst =
     (case snd src of
        Dir ks \<Rightarrow> Inl IsADirectoryError
      | File c \<Rightarrow> Inr (dst, s\<lparr>image_dir := image_dir s @ [(dst, File c)],
                                diag := diag s @ [ImageCopied (fst src) dst]\<rparr>))"

definition copy_image_to_image_dir :: "state \<Rightarrow> string \<times> node \<Rightarrow> error + (string \<times> state)" where
  \<comment> \<open>the source is given by its name and by what the file system holds there;
      the result is the name of the copy inside the image directory\<close>
  "copy_image_to_image_dir s src =
     (let dst = fst src in
      if \<not> image_exists (image_dir s) dst then copy2 s src dst
      else (let stem = py_stem dst; ext = py_suffix dst;
                idx = probe (image_dir s) stem ext 1
            in copy2 s src (alt_name stem idx ext)))"

subsection \<open>Where a located path leads\<close>

fun lookup_path :: "(string \<times> node) list \<Rightarrow> string list \<Rightarrow> node option" where
  "lookup_path ks [] = Some (Dir ks)"
| "lookup_path ks (n # ns) =
     (case map_of ks n of
        None \<Rightarrow> None
      | Some (File c) \<Rightarrow> (if ns = [] then Some (File c) else None)
      | Some (Dir ks') \<Rightarrow> lookup_path ks' ns)"

definition att_source :: "env \<Rightarrow> att_path \<Rightarrow> string \<times> node" where
  \<comment> \<open>the \<^verbatim>\<open>.name\<close> of a located path and what the file system holds there; the last
      case is not reached by a path that the search took from the tree\<close>
  "att_source e p =
     (case p of
        AttRoot \<Rightarrow> (att_dir_name e, Dir (att_root e))
      | AttParent \<Rightarrow> (''..'', Dir [])
      | AttEntry ns \<Rightarrow>
          (if ns = [] then (att_dir_name e, Dir (att_root e))
           else (case lookup_path (att_root e) ns of
                   Some t \<Rightarrow> (last ns, t)
                 | None \<Rightarrow> (last ns, Dir []))))"

subsection \<open>The two reference syntaxes\<close>

record rmatch =
  group0 :: string
  group1 :: string
  group2 :: "string option"

definition tok_char :: "char \<Rightarrow> bool" where
  \<comment> \<open>the class \<^verbatim>\<open>[^|\]]\<close>\<close>
  "tok_char c = (c \<noteq> CHR ''|'' \<and> c \<noteq> CHR '']'')"

definition not_rbracket :: "char \<Rightarrow> bool" where
  \<comment> \<open>the class \<^verbatim>\<open>[^\]]\<close>\<close>
  "not_rbracket c = (c \<noteq> CHR '']'')"

definition not_rparen :: "char \<Rightarrow> bool" where
  \<comment> \<open>the class \<^verbatim>\<open>[^)]\<close>\<close>
  "not_rparen c = (c \<noteq> CHR '')'')"

text \<open>
  A match of \<^verbatim>\<open>!\[\[([^|\]]+)(\|[^\]]+)?\]\]\<close> at the start of the text. Each greedy
  class is followed by a character outside the class, so the maximal run is the only
  one that can succeed.
\<close>

definition match_embed :: "string \<Rightarrow> rmatch option" where
  "match_embed txt =
     (if \<not> startswith txt ''![['' then None
      else (let body = drop 3 txt;
                tok = takeWhile tok_char body;
                r = dropWhile tok_char body
            in if tok = [] then None
               else (case r of
                       [] \<Rightarrow> None
                     | c # r1 \<Rightarrow>
                         (if c = CHR ''|''
                          then (let pb = takeWhile not_rbracket r1;
                                    r2 = dropWhile not_rbracket r1
                                in if pb \<noteq> [] \<and> startswith r2 '']]''
                                   then Some \<lparr>group0 = ''![['' @ tok @ ''|'' @ pb @ '']]'',
                                              group1 = tok, group2 = Some (''|'' @ pb)\<rparr>
                                   else None)
                          else if startswith r '']]''
                          then Some \<lparr>group0 = ''![['' @ tok @ '']]'',
                                     group1 = tok, group2 = None\<rparr>
                          else None))))"

text \<open>A match of \<^verbatim>\<open>!\[[^\]]*\]\(([^)]+)\)\<close> at the start of the text.\<close>

definition match_md_img :: "string \<Rightarrow> rmatch option" where
  "match_md_img txt =
     (if \<not> startswith txt ''!['' then None
      else (let body = drop 2 txt;
                alt = takeWhile not_rbracket body;
                r = dropWhile not_rbracket body
            in if \<not> startswith r ''](''  then None
               else (let r1 = drop 2 r;
                         path = takeWhile not_rparen r1;
                         r2 = dropWhile not_rparen r1
                     in if path \<noteq> [] \<and> startswith r2 '')''
                        then Some \<lparr>group0 = ''!['' @ alt @ '']('' @ path @ '')'',
                                   group1 = path, group2 = None\<rparr>
                        else None)))"

text \<open>
  \<^verbatim>\<open>re.sub(pattern, repl, content)\<close> with a callback that reads and changes the state:
  the leftmost match is replaced, the scan goes on behind it, and an exception raised
  by the callback ends the substitution. Neither pattern matches the empty string.
\<close>

fun re_sub :: "(string \<Rightarrow> rmatch option) \<Rightarrow> (state \<Rightarrow> rmatch \<Rightarrow> error + (string \<times> state))
    \<Rightarrow> state \<Rightarrow> string \<Rightarrow> error + (string \<times> state)" where
  "re_sub pat repl s [] = Inr ([], s)"
| "re_sub pat repl s (c # cs) =
     (case pat (c # cs) of
        None \<Rightarrow>
          (case re_sub pat repl s cs of
             Inl err \<Rightarrow> Inl err
           | Inr (out, s') \<Rightarrow> Inr (c # out, s'))
      | Some m \<Rightarrow>
          (case repl s m of
             Inl err \<Rightarrow> Inl err
           | Inr (new, s1) \<Rightarrow>
               (case re_sub pat repl s1 (drop (length (group0 m) - 1) cs) of
                  Inl err \<Rightarrow> Inl err
                | Inr (out, s') \<Rightarrow> Inr (new @ out, s'))))"

subsection \<open>\<^verbatim>\<open>repl_obsidian\<close>\<close>

definition dq :: string where
  \<comment> \<open>the double quote\<close>
  "dq = [CHR 0x22]"

definition match_dims :: "string \<Rightarrow> (string \<times> string) option" where
  \<comment> \<open>\<^verbatim>\<open>re.match(r"(\d+)x(\d+)$", dims)\<close>; Python's \<^verbatim>\<open>$\<close> also matches just before a
      newline that ends the string\<close>
  "match_dims dims =
     (let w = takeWhile is_digit dims; r1 = dropWhile is_digit dims
      in if w = [] then None
         else (case r1 of
                 [] \<Rightarrow> None
               | c # r2 \<Rightarrow>
                   (if c \<noteq> CHR ''x'' then None
                    else (let h = takeWhile is_digit r2; r3 = dropWhile is_digit r2
                          in if h \<noteq> [] \<and> (r3 = [] \<or> r3 = [CHR 0x0A])
                             then Some (w, h) else None))))"

definition size_attrs :: "string option \<Rightarrow> string" where
  \<comment> \<open>\<^verbatim>\<open>width_attr + height_attr\<close> as computed from \<^verbatim>\<open>param\<close>\<close>
  "size_attrs param =
     (case param of
        None \<Rightarrow> []
      | Some p \<Rightarrow>
          (if p = [] then []
           else (case match_dims (strip_chars ''|'' p) of
                   None \<Rightarrow> []
                 | Some (w, h) \<Rightarrow>
                     '' width='' @ dq @ w @ dq @ '' height='' @ dq @ h @ dq)))"

definition repl_obsidian :: "env \<Rightarrow> state \<Rightarrow> rmatch \<Rightarrow> error + (string \<times> state)" where
  "repl_obsidian e s m =
     (let token = py_strip (group1 m);
          param = group2 m
      in case locate_image_by_token e token of
           Inl err \<Rightarrow> Inl err
         | Inr None \<Rightarrow> Inr (group0 m, s\<lparr>diag := diag s @ [ImageNotFound token]\<rparr>)
         | Inr (Some image_file) \<Rightarrow>
             (case copy_image_to_image_dir s (att_source e image_file) of
                Inl err \<Rightarrow> Inl err
              | Inr (copied, s') \<Rightarrow>
                  Inr (''<img src='' @ dq @ ''image/'' @ copied @ dq @ size_attrs param @ ''>'',
                       s')))"

subsection \<open>\<^verbatim>\<open>replace_md_img\<close>\<close>

definition doc_file :: "env \<Rightarrow> state \<Rightarrow> string \<Rightarrow> (string \<times> node) option" where
  \<comment> \<open>\<^verbatim>\<open>candidate = (md_path.parent / raw_path).resolve()\<close>, kept when
      \<^verbatim>\<open>candidate.exists() and candidate.is_file()\<close>\<close>
  "doc_file e s raw_path =
     (case doc_rel e raw_path of
        RelMissing \<Rightarrow> None
      | RelDir \<Rightarrow> None
      | RelFile n c \<Rightarrow> Some (n, File c)
      | RelImage n \<Rightarrow>
          (case map_of (image_dir s) n of
             Some (File c) \<Rightarrow> Some (n, File c)
           | _ \<Rightarrow> None))"

definition replace_md_img :: "env \<Rightarrow> state \<Rightarrow> rmatch \<Rightarrow> error + (string \<times> state)" where
  "replace_md_img e s m =
     (let raw_path = py_strip (group1 m)
      in if startswith raw_path ''http://'' \<or> startswith raw_path ''https://''
            \<or> startswith raw_path ''data:''
         then Inr (group0 m, s)
         else if startswith raw_path ''image/'' then Inr (group0 m, s)
         else (case (case doc_file e s raw_path of
                       Some src \<Rightarrow> Inr (Some src)
                     | None \<Rightarrow>
                         (case locate_image_by_token e (path_name raw_path) of
                            Inl err \<Rightarrow> Inl err
                          | Inr None \<Rightarrow> Inr None
                          | Inr (Some p) \<Rightarrow> Inr (Some (att_source e p)))) of
                 Inl err \<Rightarrow> Inl err
               | Inr None \<Rightarrow> Inr (group0 m, s)
               | Inr (Some image_file) \<Rightarrow>
                   (case copy_image_to_image_dir s image_file of
                      Inl err \<Rightarrow> Inl err
                    | Inr (copied, s') \<Rightarrow>
                        Inr (''<img src='' @ dq @ ''image/'' @ copied @ dq @ ''>'', s'))))"

subsection \<open>\<^verbatim>\<open>_process_single_markdown\<close>\<close>

definition process_single_markdown :: "env \<Rightarrow> state \<Rightarrow> string \<Rightarrow> error + (string \<times> state)" where
  \<comment> \<open>from the text read to the text written back, with the state after both passes\<close>
  "process_single_markdown e s content =
     (case re_sub match_embed (repl_obsidian e) s content of
        Inl err \<Rightarrow> Inl err
      | Inr (content1, s1) \<Rightarrow> re_sub match_md_img (replace_md_img e) s1 content1)"

subsection \<open>Example surroundings\<close>

definition empty_state :: state where
  \<comment> \<open>the image directory right after \<^verbatim>\<open>_clear_target\<close>, nothing printed yet\<close>
  "empty_state = \<lparr>image_dir = [], diag = []\<rparr>"

definition no_wildcard_hits :: "string \<Rightarrow> error + string list list" where
  "no_wildcard_hits pat = Inr []"

definition nothing_beside_doc :: "string \<Rightarrow> rel_target" where
  "nothing_beside_doc raw_path = RelMissing"

definition logo_env :: env where
  \<comment> \<open>the attachment directory holds \<^verbatim>\<open>assets/sub/logo.png\<close> only\<close>
  "logo_env = \<lparr>att_root = [(''assets'', Dir [(''sub'', Dir [(''logo.png'', File ''PNG'')])])],
               att_dir_name = ''attachment'', rglob_magic = no_wildcard_hits,
               doc_rel = nothing_beside_doc\<rparr>"

definition logo_path :: att_path where
  "logo_path = AttEntry [''assets'', ''sub'', ''logo.png'']"

definition weird_env :: env where
  \<comment> \<open>the attachment directory holds \<^verbatim>\<open>weirdname.png\<close> only\<close>
  "weird_env = \<lparr>att_root = [(''weirdname.png'', File ''PNG'')],
                att_dir_name = ''attachment'', rglob_magic = no_wildcard_hits,
                doc_rel = nothing_beside_doc\<rparr>"

subsection \<open>Names that occur in the attachment tree\<close>

fun names_node :: "node \<Rightarrow> string list"
  and names_kids :: "(string \<times> node) list \<Rightarrow> string list" where
  \<comment> \<open>the names of all entries, at any depth\<close>
  "names_node (File c) = []"
| "names_node (Dir ks) = names_kids ks"
| "names_kids [] = []"
| "names_kids ((n, t) # ks) = n # names_node t @ names_kids ks"

definition no_attachment :: "env \<Rightarrow> string \<Rightarrow> bool" where
  \<comment> \<open>no candidate of the token names an entry of the attachment tree, and every
      candidate is an ordinary name: not empty, not \<^verbatim>\<open>..\<close>, free of wildcard characters\<close>
  "no_attachment e token =
     list_all (\<lambda>c. c \<noteq> [] \<and> c \<noteq> ''..'' \<and> \<not> is_magic c
                 \<and> c \<notin> set (names_kids (att_root e)))
       (candidates token)"

definition folder_env :: env where
  \<comment> \<open>the attachment directory holds the folder \<^verbatim>\<open>logo\<close> with \<^verbatim>\<open>logo.png\<close> in it\<close>
  "folder_env = \<lparr>att_root = [(''logo'', Dir [(''logo.png'', File ''PNG'')])],
                 att_dir_name = ''attachment'', rglob_magic = no_wildcard_hits,
                 doc_rel = nothing_beside_doc\<rparr>"

definition beside_doc :: "string \<Rightarrow> rel_target" where
  \<comment> \<open>\<^verbatim>\<open>cover.jpg\<close> lies in the directory of the document\<close>
  "beside_doc raw_path =
     (if raw_path = ''./cover.jpg'' then RelFile ''cover.jpg'' ''JPG'' else RelMissing)"

definition cover_env :: env where
  \<comment> \<open>\<^verbatim>\<open>cover.jpg\<close> beside the document; the attachment directory holds another file
      of that name\<close>
  "cover_env = \<lparr>att_root = [(''cover.jpg'', File ''OTHER'')],
                att_dir_name = ''attachment'', rglob_magic = no_wildcard_hits,
                doc_rel = beside_doc\<rparr>"

definition img_tag :: "string \<Rightarrow> string" where
  \<comment> \<open>the tag \<^verbatim>\<open><img src="image/NAME">\<close>\<close>
  "img_tag name = ''<img src='' @ dq @ ''image/'' @ name @ dq @ ''>''"

definition wxh :: "string \<Rightarrow> string \<Rightarrow> string \<Rightarrow> bool" where
  \<comment> \<open>the text \<open>d\<close> is \<open>w\<close>, the letter x, \<open>h\<close>, with \<open>w\<close> and \<open>h\<close> non-empty runs of
      digits: the numeric-by-numeric shape \<^verbatim>\<open>WxH\<close>\<close>
  "wxh d w h = (d = w @ ''x'' @ h \<and> w \<noteq> [] \<and> h \<noteq> []
                 \<and> list_all is_digit w \<and> list_all is_digit h)"

definition size_tag :: "string \<Rightarrow> string \<Rightarrow> string \<Rightarrow> string" where
  \<comment> \<open>the tag \<^verbatim>\<open><img src="image/NAME" width="W" height="H">\<close>\<close>
  "size_tag name w h =
     ''<img src='' @ dq @ ''image/'' @ name @ dq
       @ '' width='' @ dq @ w @ dq @ '' height='' @ dq @ h @ dq @ ''>''"

definition pic_beside_doc :: "string \<Rightarrow> rel_target" where
  \<comment> \<open>the document lies in the content directory, next to \<^verbatim>\<open>pic.png\<close> and to the
      output image directory \<^verbatim>\<open>image\<close>\<close>
  "pic_beside_doc raw_path =
     (if raw_path = ''./pic.png'' then RelFile ''pic.png'' ''PNG''
      else if raw_path = ''./image/pic.png'' then RelImage ''pic.png''
      else RelMissing)"

definition pic_env :: env where
  "pic_env = \<lparr>att_root = [], att_dir_name = ''attachment'', rglob_magic = no_wildcard_hits,
              doc_rel = pic_beside_doc\<rparr>"

subsection \<open>The earlier lookup \<^verbatim>\<open>_find_image_file\<close> of \<^verbatim>\<open>sync_posts.py\<close>\<close>

text \<open>
  Both earlier variants of the script (\<^verbatim>\<open>sync_posts.py\<close> and
  \<^verbatim>\<open>ObsidianBlog/sync_posts.py\<close>) try, for each extension in turn, the image name
  itself, the name with the extension appended and the name with all dots removed plus
  the extension, with no test for a suffix. The definitions give the names in the order
  they are tried and the first of them that exists directly under the attachment
  directory (the first step of the lookup), for an image name without a slash.
\<close>

definition possible_names :: "string \<Rightarrow> string list" where
  "possible_names image_name =
     concat (map (\<lambda>ext. [image_name, image_name @ ext,
                           filter (\<lambda>c. c \<noteq> CHR ''.'') image_name @ ext]) exts)"

definition find_image_file_root :: "env \<Rightarrow> string \<Rightarrow> string option" where
  "find_image_file_root e image_name = find (exists_under_root e) (possible_names image_name)"

section \<open>Properties of the copy into the image directory\<close>

lemma probe_ge: "idx \<le> probe d stem ext idx"
proof (induction d stem ext idx rule: probe.induct)
  case (1 d stem ext idx)
  show ?case
  proof (cases "image_exists d (alt_name stem idx ext)")
    case True
    with "1.IH" show ?thesis by (subst probe.simps) simp
  next
    case False
    then show ?thesis by (subst probe.simps) simp
  qed
qed

lemma probe_unused: "\<not> image_exists d (alt_name stem (probe d stem ext idx) ext)"
proof (induction d stem ext idx rule: probe.induct)
  case (1 d stem ext idx)
  show ?case
  proof (cases "image_exists d (alt_name stem idx ext)")
    case True
    with "1.IH" show ?thesis by (subst probe.simps) simp
  next
    case False
    then show ?thesis by (subst probe.simps) simp
  qed
qed

lemma probe_skips_taken:
  "idx \<le> k \<Longrightarrow> k < probe d stem ext idx \<Longrightarrow> image_exists d (alt_name stem k ext)"
proof (induction d stem ext idx rule: probe.induct)
  case (1 d stem ext idx)
  show ?case
  proof (cases "image_exists d (alt_name stem idx ext)")
    case True
    then have eq: "probe d stem ext idx = probe d stem ext (idx + 1)"
      by (subst probe.simps) simp
    show ?thesis
    proof (cases "k = idx")
      case True
      with \<open>image_exists d (alt_name stem idx ext)\<close> show ?thesis by simp
    next
      case False
      with "1.prems" eq have "idx + 1 \<le> k" and "k < probe d stem ext (idx + 1)"
        by simp_all
      with "1.IH" True show ?thesis by simp
    qed
  next
    case False
    then have "probe d stem ext idx = idx"
      by (subst probe.simps) simp
    with "1.prems" show ?thesis by simp
  qed
qed

lemma copy_fresh:
  "\<not> image_exists (image_dir s) name \<Longrightarrow>
   copy_image_to_image_dir s (name, File c) =
     Inr (name, s\<lparr>image_dir := image_dir s @ [(name, File c)],
                   diag := diag s @ [ImageCopied name name]\<rparr>)"
  by (simp add: copy_image_to_image_dir_def copy2_def)

lemma copy_taken:
  "image_exists (image_dir s) name \<Longrightarrow>
   copy_image_to_image_dir s (name, File c) =
     Inr (alt_name (py_stem name) (probe (image_dir s) (py_stem name) (py_suffix name) 1)
            (py_suffix name),
          s\<lparr>image_dir := image_dir s @
               [(alt_name (py_stem name) (probe (image_dir s) (py_stem name) (py_suffix name) 1)
                   (py_suffix name), File c)],
            diag := diag s @
               [ImageCopied name
                  (alt_name (py_stem name) (probe (image_dir s) (py_stem name) (py_suffix name) 1)
                     (py_suffix name))]\<rparr>)"
  by (simp add: copy_image_to_image_dir_def copy2_def Let_def)

lemma copy_dir_fails: "copy_image_to_image_dir s (name, Dir ks) = Inl IsADirectoryError"
  by (simp add: copy_image_to_image_dir_def copy2_def Let_def)

text \<open>
  Every successful copy of a regular file appends one entry under a name that was unused,
  and that name is the source's own name or one of its numbered variants.
\<close>

lemma copy_file_result:
  assumes "copy_image_to_image_dir s (name, File c) = Inr (n, s')"
  shows "\<not> image_exists (image_dir s) n"
    and "image_dir s' = image_dir s @ [(n, File c)]"
    and "diag s' = diag s @ [ImageCopied name n]"
    and "n = name \<or> (\<exists>k\<ge>1. n = alt_name (py_stem name) k (py_suffix name))"
proof -
  let ?k = "probe (image_dir s) (py_stem name) (py_suffix name) 1"
  have "\<not> image_exists (image_dir s) n
      \<and> image_dir s' = image_dir s @ [(n, File c)]
      \<and> diag s' = diag s @ [ImageCopied name n]
      \<and> (n = name \<or> (\<exists>k\<ge>1. n = alt_name (py_stem name) k (py_suffix name)))"
  proof (cases "image_exists (image_dir s) name")
    case False
    with assms show ?thesis by (auto simp: copy_fresh)
  next
    case True
    with assms have n: "n = alt_name (py_stem name) ?k (py_suffix name)"
      and s': "s' = s\<lparr>image_dir := image_dir s @ [(n, File c)],
                       diag := diag s @ [ImageCopied name n]\<rparr>"
      by (auto simp: copy_taken)
    have "1 \<le> ?k" by (rule probe_ge)
    with n s' probe_unused [of "image_dir s" "py_stem name" "py_suffix name" 1]
    show ?thesis by auto
  qed
  then show "\<not> image_exists (image_dir s) n"
    and "image_dir s' = image_dir s @ [(n, File c)]"
    and "diag s' = diag s @ [ImageCopied name n]"
    and "n = name \<or> (\<exists>k\<ge>1. n = alt_name (py_stem name) k (py_suffix name))"
    by simp_all
qed

lemma map_of_append_old:
  "n \<in> set (map fst d) \<Longrightarrow> map_of (d @ [(a, v)]) n = map_of d n"
  by (induction d) auto

text \<open>
  Claim C4. When the source's base name already names an entry of the image directory,
  the directory keeps every entry it had (the copy is appended under a name that was not
  in use, so nothing is overwritten), and the copy goes to \<^verbatim>\<open>stem_k.ext\<close> for the
  least \<open>k \<ge> 1\<close> whose name is unused: every smaller index from 1 on is taken.
\<close>

theorem copy_probes_in_increasing_order:
  assumes "image_exists (image_dir s) name"
  shows "\<exists>k\<ge>1.
      copy_image_to_image_dir s (name, File c) =
        Inr (alt_name (py_stem name) k (py_suffix name),
             s\<lparr>image_dir := image_dir s @ [(alt_name (py_stem name) k (py_suffix name), File c)],
               diag := diag s @ [ImageCopied name (alt_name (py_stem name) k (py_suffix name))]\<rparr>)
      \<and> \<not> image_exists (image_dir s) (alt_name (py_stem name) k (py_suffix name))
      \<and> (\<forall>j. 1 \<le> j \<and> j < k \<longrightarrow>
            image_exists (image_dir s) (alt_name (py_stem name) j (py_suffix name)))
      \<and> (\<forall>n. image_exists (image_dir s) n \<longrightarrow>
            map_of (image_dir s @ [(alt_name (py_stem name) k (py_suffix name), File c)]) n
              = map_of (image_dir s) n)"
proof -
  let ?k = "probe (image_dir s) (py_stem name) (py_suffix name) 1"
  have "1 \<le> ?k" by (rule probe_ge)
  moreover have "\<not> image_exists (image_dir s) (alt_name (py_stem name) ?k (py_suffix name))"
    by (rule probe_unused)
  moreover have "\<forall>j. 1 \<le> j \<and> j < ?k \<longrightarrow>
      image_exists (image_dir s) (alt_name (py_stem name) j (py_suffix name))"
    using probe_skips_taken by blast
  moreover have "\<forall>n. image_exists (image_dir s) n \<longrightarrow>
      map_of (image_dir s @ [(alt_name (py_stem name) ?k (py_suffix name), File c)]) n
        = map_of (image_dir s) n"
    by (intro allI impI map_of_append_old) (simp add: image_exists_def)
  ultimately show ?thesis
    using copy_taken [OF assms, of c] by blast
qed

lemma alt_png_1: "alt_name (py_stem ''a.png'') (Suc 0) (py_suffix ''a.png'') = ''a_1.png''"
  by code_simp
lemma alt_png_2: "alt_name (py_stem ''a.png'') 2 (py_suffix ''a.png'') = ''a_2.png''"
  by code_simp

theorem copy_probes_in_increasing_order_witness:
  "image_exists [(''a.png'', File ''one''), (''a_1.png'', File ''two'')] ''a.png''
   \<and> copy_image_to_image_dir
        \<lparr>image_dir = [(''a.png'', File ''one''), (''a_1.png'', File ''two'')], diag = []\<rparr>
        (''a.png'', File ''three'')
      = Inr (''a_2.png'',
          \<lparr>image_dir = [(''a.png'', File ''one''), (''a_1.png'', File ''two''),
                        (''a_2.png'', File ''three'')],
            diag = [ImageCopied ''a.png'' ''a_2.png'']\<rparr>)"
proof -
  let ?d = "[(''a.png'', File ''one''), (''a_1.png'', File ''two'')]"
  let ?s = "\<lparr>image_dir = ?d, diag = []\<rparr>"
  have ex: "image_exists (image_dir ?s) ''a.png''"
    by (simp add: image_exists_def)
  from copy_probes_in_increasing_order [OF ex, of "''three''"]
  obtain k where k1: "1 \<le> k"
    and res: "copy_image_to_image_dir ?s (''a.png'', File ''three'') =
        Inr (alt_name (py_stem ''a.png'') k (py_suffix ''a.png''),
             ?s\<lparr>image_dir := image_dir ?s @ [(alt_name (py_stem ''a.png'') k (py_suffix ''a.png''), File ''three'')],
               diag := diag ?s @ [ImageCopied ''a.png'' (alt_name (py_stem ''a.png'') k (py_suffix ''a.png''))]\<rparr>)"
    and unused: "\<not> image_exists (image_dir ?s) (alt_name (py_stem ''a.png'') k (py_suffix ''a.png''))"
    and taken: "\<forall>j. 1 \<le> j \<and> j < k \<longrightarrow>
            image_exists (image_dir ?s) (alt_name (py_stem ''a.png'') j (py_suffix ''a.png''))"
    by blast
  have "k \<noteq> 1"
    using unused by (auto simp: alt_png_1 image_exists_def)
  moreover have "\<not> 2 < k"
  proof
    assume "2 < k"
    with taken have "image_exists (image_dir ?s) (alt_name (py_stem ''a.png'') 2 (py_suffix ''a.png''))"
      by simp
    then show False by (simp add: alt_png_2 image_exists_def)
  qed
  ultimately have "k = 2" using k1 by arith
  with res ex show ?thesis by (simp add: alt_png_2)
qed

text \<open>
  Claim C1 asks that a source file materialized twice in one pass is copied once and that
  both materializations return the same name. The code keeps no record of the sources it
  has copied: the second copy of \<^verbatim>\<open>assets/sub/logo.png\<close> finds \<^verbatim>\<open>logo.png\<close> taken and
  goes to \<^verbatim>\<open>logo_1.png\<close>.
\<close>

theorem same_source_copied_twice:
  "copy_image_to_image_dir empty_state (att_source logo_env logo_path) =
     Inr (''logo.png'',
          \<lparr>image_dir = [(''logo.png'', File ''PNG'')],
            diag = [ImageCopied ''logo.png'' ''logo.png'']\<rparr>)
   \<and> copy_image_to_image_dir
        \<lparr>image_dir = [(''logo.png'', File ''PNG'')],
          diag = [ImageCopied ''logo.png'' ''logo.png'']\<rparr>
        (att_source logo_env logo_path) =
     Inr (''logo_1.png'',
          \<lparr>image_dir = [(''logo.png'', File ''PNG''), (''logo_1.png'', File ''PNG'')],
            diag = [ImageCopied ''logo.png'' ''logo.png'',
                    ImageCopied ''logo.png'' ''logo_1.png'']\<rparr>)"
  by code_simp

text \<open>
  Claim C1 as amended. Every materialization of a regular file copies it once more, under
  a name that was unused in the image directory before the call. The first materialization
  returns the base name when that is free, and otherwise \<^verbatim>\<open>stem_k.ext\<close> for the least
  \<open>k \<ge> 1\<close> whose name is unused. A second materialization of the same source then finds
  the base name taken: it returns \<^verbatim>\<open>stem_k.ext\<close> for the least \<open>k \<ge> 1\<close> whose name is
  unused at that moment, a name different from the first, and the directory ends with
  the two copies appended in this order.
\<close>

theorem repeated_copy_gets_new_name:
  assumes first: "copy_image_to_image_dir s (name, File c) = Inr (n1, s1)"
    and second: "copy_image_to_image_dir s1 (name, File c) = Inr (n2, s2)"
  shows "\<not> image_exists (image_dir s) n1
    \<and> (\<not> image_exists (image_dir s) name \<longrightarrow> n1 = name)
    \<and> (image_exists (image_dir s) name \<longrightarrow>
         (\<exists>k\<ge>1. n1 = alt_name (py_stem name) k (py_suffix name)
            \<and> (\<forall>j. 1 \<le> j \<and> j < k \<longrightarrow>
                  image_exists (image_dir s) (alt_name (py_stem name) j (py_suffix name)))))
    \<and> image_dir s1 = image_dir s @ [(n1, File c)]
    \<and> \<not> image_exists (image_dir s1) n2
    \<and> n2 \<noteq> n1
    \<and> (\<exists>k\<ge>1. n2 = alt_name (py_stem name) k (py_suffix name)
           \<and> (\<forall>j. 1 \<le> j \<and> j < k \<longrightarrow>
                 image_exists (image_dir s1) (alt_name (py_stem name) j (py_suffix name))))
    \<and> image_dir s2 = image_dir s @ [(n1, File c), (n2, File c)]"
proof -
  let ?alt = "\<lambda>k. alt_name (py_stem name) k (py_suffix name)"
  have least: "\<exists>k\<ge>1. n = ?alt k \<and> (\<forall>j. 1 \<le> j \<and> j < k \<longrightarrow> image_exists (image_dir t) (?alt j))"
    if "image_exists (image_dir t) name"
      and "copy_image_to_image_dir t (name, File c) = Inr (n, t')" for t t' n
  proof -
    let ?k = "probe (image_dir t) (py_stem name) (py_suffix name) 1"
    have "n = ?alt ?k"
      using that by (simp add: copy_taken)
    moreover have "1 \<le> ?k"
      by (rule probe_ge)
    moreover have "\<forall>j. 1 \<le> j \<and> j < ?k \<longrightarrow> image_exists (image_dir t) (?alt j)"
      using probe_skips_taken by blast
    ultimately show ?thesis by blast
  qed
  have n1_new: "\<not> image_exists (image_dir s) n1"
    using copy_file_result(1) [OF first] .
  have n1_base: "\<not> image_exists (image_dir s) name \<longrightarrow> n1 = name"
    using first by (auto simp: copy_fresh)
  have n1_least: "image_exists (image_dir s) name \<longrightarrow>
      (\<exists>k\<ge>1. n1 = ?alt k \<and> (\<forall>j. 1 \<le> j \<and> j < k \<longrightarrow> image_exists (image_dir s) (?alt j)))"
    using least [OF _ first] by blast
  have d1: "image_dir s1 = image_dir s @ [(n1, File c)]"
    using copy_file_result(2) [OF first] .
  have name_taken: "image_exists (image_dir s1) name"
  proof (cases "image_exists (image_dir s) name")
    case True
    with d1 show ?thesis by (simp add: image_exists_def)
  next
    case False
    with n1_base d1 show ?thesis by (simp add: image_exists_def)
  qed
  have n1_there: "image_exists (image_dir s1) n1"
    using d1 by (simp add: image_exists_def)
  have n2_new: "\<not> image_exists (image_dir s1) n2"
    using copy_file_result(1) [OF second] .
  have differ: "n2 \<noteq> n1"
    using n1_there n2_new by auto
  have n2_least: "\<exists>k\<ge>1. n2 = ?alt k
      \<and> (\<forall>j. 1 \<le> j \<and> j < k \<longrightarrow> image_exists (image_dir s1) (?alt j))"
    using least [OF name_taken second] .
  have d2: "image_dir s2 = image_dir s @ [(n1, File c), (n2, File c)]"
    using copy_file_result(2) [OF second] d1 by simp
  from n1_new n1_base n1_least d1 n2_new differ n2_least d2 show ?thesis
    by (intro conjI)
qed

theorem repeated_copy_gets_new_name_witness:
  "copy_image_to_image_dir empty_state (''logo.png'', File ''PNG'') =
     Inr (''logo.png'', \<lparr>image_dir = [(''logo.png'', File ''PNG'')],
                          diag = [ImageCopied ''logo.png'' ''logo.png'']\<rparr>)
   \<and> copy_image_to_image_dir
        \<lparr>image_dir = [(''logo.png'', File ''PNG'')],
          diag = [ImageCopied ''logo.png'' ''logo.png'']\<rparr> (''logo.png'', File ''PNG'') =
     Inr (''logo_1.png'',
          \<lparr>image_dir = [(''logo.png'', File ''PNG''), (''logo_1.png'', File ''PNG'')],
            diag = [ImageCopied ''logo.png'' ''logo.png'',
                    ImageCopied ''logo.png'' ''logo_1.png'']\<rparr>)
   \<and> \<not> image_exists (image_dir empty_state) ''logo.png''
   \<and> \<not> image_exists [(''logo.png'', File ''PNG'')] ''logo_1.png''
   \<and> ''logo_1.png'' \<noteq> ''logo.png''
   \<and> (\<exists>k\<ge>1. ''logo_1.png'' = alt_name (py_stem ''logo.png'') k (py_suffix ''logo.png'')
          \<and> (\<forall>j. 1 \<le> j \<and> j < k \<longrightarrow>
                image_exists [(''logo.png'', File ''PNG'')]
                  (alt_name (py_stem ''logo.png'') j (py_suffix ''logo.png''))))
   \<and> [(''logo.png'', File ''PNG''), (''logo_1.png'', File ''PNG'')]
       = image_dir empty_state @ [(''logo.png'', File ''PNG''), (''logo_1.png'', File ''PNG'')]"
proof -
  have a: "copy_image_to_image_dir empty_state (''logo.png'', File ''PNG'') =
     Inr (''logo.png'', \<lparr>image_dir = [(''logo.png'', File ''PNG'')],
                          diag = [ImageCopied ''logo.png'' ''logo.png'']\<rparr>)"
    by code_simp
  have b: "copy_image_to_image_dir
        \<lparr>image_dir = [(''logo.png'', File ''PNG'')],
          diag = [ImageCopied ''logo.png'' ''logo.png'']\<rparr> (''logo.png'', File ''PNG'') =
     Inr (''logo_1.png'',
          \<lparr>image_dir = [(''logo.png'', File ''PNG''), (''logo_1.png'', File ''PNG'')],
            diag = [ImageCopied ''logo.png'' ''logo.png'',
                    ImageCopied ''logo.png'' ''logo_1.png'']\<rparr>)"
    by code_simp
  from repeated_copy_gets_new_name [OF a b] a b show ?thesis
    by (simp add: empty_state_def image_exists_def)
qed

section \<open>Properties of the candidate list\<close>

lemma py_suffix_last_dot:
  assumes "CHR ''.'' \<notin> set b"
  shows "py_suffix (a @ CHR ''.'' # b) = (if a \<noteq> [] \<and> b \<noteq> [] then CHR ''.'' # b else [])"
proof -
  have "takeWhile (\<lambda>c. c \<noteq> CHR ''.'') (rev b @ CHR ''.'' # rev a) = rev b"
    using assms by (auto simp: takeWhile_tail)
  then have tail: "rev (takeWhile (\<lambda>c. c \<noteq> CHR ''.'') (rev (a @ CHR ''.'' # b))) = b"
    by simp
  show ?thesis
    unfolding py_suffix_def Let_def tail
    by (cases "b = []") auto
qed

lemma py_suffix_nonempty_iff:
  "py_suffix name \<noteq> [] \<longleftrightarrow>
     (\<exists>a b. name = a @ ''.'' @ b \<and> a \<noteq> [] \<and> b \<noteq> [] \<and> CHR ''.'' \<notin> set b)"
proof
  assume ne: "py_suffix name \<noteq> []"
  then have "CHR ''.'' \<in> set name"
    by (auto simp: py_suffix_def split: if_splits)
  then obtain a b where split: "name = a @ CHR ''.'' # b" and b: "CHR ''.'' \<notin> set b"
    by (auto dest: split_list_last)
  with ne have "a \<noteq> [] \<and> b \<noteq> []"
    by (auto simp: py_suffix_last_dot split: if_splits)
  with split b show "\<exists>a b. name = a @ ''.'' @ b \<and> a \<noteq> [] \<and> b \<noteq> [] \<and> CHR ''.'' \<notin> set b"
    by auto
next
  assume "\<exists>a b. name = a @ ''.'' @ b \<and> a \<noteq> [] \<and> b \<noteq> [] \<and> CHR ''.'' \<notin> set b"
  then show "py_suffix name \<noteq> []"
    by (auto simp: py_suffix_last_dot)
qed

text \<open>
  The list the code builds, by cases on the suffix of the file-name part of the token
  (a last dot that is neither the first nor the last character of the name).
\<close>

lemma candidates_by_suffix:
  "candidates token =
     (if \<exists>a b. path_name token = a @ ''.'' @ b \<and> a \<noteq> [] \<and> b \<noteq> [] \<and> CHR ''.'' \<notin> set b
      then [path_name token]
      else [path_name token,
            path_name token @ ''.png'', path_name token @ ''.jpg'',
            path_name token @ ''.jpeg'', path_name token @ ''.gif'',
            path_name token @ ''.svg'', path_name token @ ''.webp'',
            filter (\<lambda>c. c \<noteq> CHR ''.'') (path_name token) @ ''.png'',
            filter (\<lambda>c. c \<noteq> CHR ''.'') (path_name token) @ ''.jpg'',
            filter (\<lambda>c. c \<noteq> CHR ''.'') (path_name token) @ ''.jpeg'',
            filter (\<lambda>c. c \<noteq> CHR ''.'') (path_name token) @ ''.gif'',
            filter (\<lambda>c. c \<noteq> CHR ''.'') (path_name token) @ ''.svg'',
            filter (\<lambda>c. c \<noteq> CHR ''.'') (path_name token) @ ''.webp''])"
proof (cases "py_suffix (path_name token) = []")
  case True
  then have "\<not> (\<exists>a b. path_name token = a @ ''.'' @ b \<and> a \<noteq> [] \<and> b \<noteq> []
      \<and> CHR ''.'' \<notin> set b)"
    using py_suffix_nonempty_iff [of "path_name token"] by simp
  with True show ?thesis
    by (simp add: candidates_def exts_def Let_def)
next
  case False
  then have "\<exists>a b. path_name token = a @ ''.'' @ b \<and> a \<noteq> [] \<and> b \<noteq> [] \<and> CHR ''.'' \<notin> set b"
    using py_suffix_nonempty_iff [of "path_name token"] by simp
  with False show ?thesis
    by (simp add: candidates_def Let_def)
qed

text \<open>
  Under the guard \<^verbatim>\<open>if not has_ext\<close> the removal of the dots has nothing to remove but a
  dot at the very start or the very end of the name: for any other name without a suffix
  the dot-stripped candidates repeat the ones before them.
\<close>

lemma dot_strip_is_idle:
  assumes "py_suffix name = []" and "name \<noteq> []"
    and "hd name \<noteq> CHR ''.''" and "last name \<noteq> CHR ''.''"
  shows "filter (\<lambda>c. c \<noteq> CHR ''.'') name = name"
proof -
  have "CHR ''.'' \<notin> set name"
  proof
    assume "CHR ''.'' \<in> set name"
    then obtain a b where split: "name = a @ CHR ''.'' # b" and b: "CHR ''.'' \<notin> set b"
      by (auto dest: split_list_last)
    with assms(1) have "a = [] \<or> b = []"
      by (auto simp: py_suffix_last_dot split: if_splits)
    then show False
      using assms(3,4) split by auto
  qed
  then show ?thesis
    by (induction name) auto
qed

lemma weirdname_resolved:
  "locate_image_by_token weird_env ''weirdname'' = Inr (Some (AttEntry [''weirdname.png'']))"
  by code_simp

text \<open>The earlier lookup reaches \<^verbatim>\<open>weirdname.png\<close> from the token \<^verbatim>\<open>weird.name\<close>.\<close>

lemma earlier_lookup_resolves_weird_name:
  "find_image_file_root weird_env ''weird.name'' = Some ''weirdname.png''"
  by code_simp

text \<open>
  Claim C2: a token without a recognized image extension, \<^verbatim>\<open>weird.name\<close> included, gets
  each extension appended and also the dot-stripped form with each extension, so that
  \<^verbatim>\<open>weird.name\<close> resolves to \<^verbatim>\<open>weirdname.png\<close>. The code builds the dot-stripped
  names inside \<^verbatim>\<open>if not has_ext\<close>, where \<^verbatim>\<open>has_ext\<close> holds for any suffix at all: the
  token \<^verbatim>\<open>weird.name\<close> has the single candidate \<^verbatim>\<open>weird.name\<close> and is not found
  although \<^verbatim>\<open>weirdname.png\<close> lies directly under the attachment directory.
\<close>

theorem weird_name_not_resolved:
  "candidates ''weird.name'' = [''weird.name'']
   \<and> exists_under_root weird_env ''weirdname.png''
   \<and> locate_image_by_token weird_env ''weird.name'' = Inr None"
  by code_simp

section \<open>Properties of the string operations\<close>

lemma strip_with_idem: "strip_with P (strip_with P s) = strip_with P s"
proof -
  define t where "t = dropWhile P s"
  define u where "u = dropWhile P (rev t)"
  have front: "dropWhile P (rev u) = rev u"
  proof (cases "u = []")
    case True
    then show ?thesis by simp
  next
    case False
    then obtain x where x: "x \<in> set (rev t)" "\<not> P x"
      unfolding u_def by (metis dropWhile_eq_Nil_conv)
    then have "last u = last (rev t)"
      unfolding u_def by (rule dropWhile_last)
    moreover have "t \<noteq> []"
      using x by auto
    ultimately have "hd (rev u) = hd t"
      using False by (simp add: hd_rev last_rev)
    moreover have "\<not> P (hd t)"
      using \<open>t \<noteq> []\<close> unfolding t_def by (rule hd_dropWhile)
    ultimately show ?thesis
      by (simp add: dropWhile_eq_self_iff)
  qed
  have rear: "dropWhile P u = u"
    unfolding u_def by (rule dropWhile_idem)
  have "strip_with P (rev u) = rev u"
    by (simp add: strip_with_def front rear)
  then show ?thesis
    by (simp add: strip_with_def t_def u_def)
qed

lemma py_strip_idem: "py_strip (py_strip s) = py_strip s"
  by (simp add: py_strip_def strip_with_idem)

lemma strip_with_keeps_prefix:
  assumes "p \<noteq> []" and "\<not> P (hd p)" and "\<not> P (last p)"
  shows "take (length p) (strip_with P (p @ r)) = p"
proof -
  have "dropWhile P (p @ r) = p @ r"
    using assms by (cases p) auto
  moreover have "\<exists>q. dropWhile P (rev r @ rev p) = q @ rev p"
  proof (cases "\<forall>x\<in>set (rev r). P x")
    case True
    moreover have "dropWhile P (rev p) = rev p"
      using assms by (simp add: dropWhile_eq_self_iff hd_rev)
    ultimately show ?thesis
      by (simp add: dropWhile_append)
  next
    case False
    then show ?thesis
      by (auto simp: dropWhile_append)
  qed
  ultimately obtain q where "strip_with P (p @ r) = p @ rev q"
    by (auto simp: strip_with_def)
  then show ?thesis by simp
qed

lemma startswith_append: "startswith s p \<longleftrightarrow> (\<exists>r. s = p @ r)"
  unfolding startswith_def
  by (metis append_eq_conv_conj append_take_drop_id)

lemma startswith_py_strip:
  assumes "startswith s p" and "p \<noteq> []" and "\<not> py_isspace (hd p)" and "\<not> py_isspace (last p)"
  shows "startswith (py_strip s) p"
proof -
  from assms(1) obtain r where "s = p @ r"
    by (auto simp: startswith_append)
  with strip_with_keeps_prefix [OF assms(2-4), of r] show ?thesis
    by (simp add: startswith_def py_strip_def)
qed

section \<open>Properties of the two replacement callbacks\<close>

text \<open>
  Claim C8. A standard-markup reference whose path begins with \<^verbatim>\<open>http://\<close>,
  \<^verbatim>\<open>https://\<close>, \<^verbatim>\<open>data:\<close> or \<^verbatim>\<open>image/\<close> (as written, or once the surrounding
  white space is stripped) is replaced by its own text, and the state is the one before
  the call: nothing is resolved, copied or printed.
\<close>

theorem skipped_prefixes_left_unchanged:
  assumes "p \<in> {''http://'', ''https://'', ''data:'', ''image/''}"
    and "startswith (group1 m) p \<or> startswith (py_strip (group1 m)) p"
  shows "replace_md_img e s m = Inr (group0 m, s)"
proof -
  have shape: "p \<noteq> [] \<and> \<not> py_isspace (hd p) \<and> \<not> py_isspace (last p)"
    using assms(1) by (auto simp: py_isspace_def)
  have "startswith (py_strip (group1 m)) p"
    using assms(2) shape by (auto intro: startswith_py_strip)
  with assms(1) show ?thesis
    by (auto simp: replace_md_img_def Let_def)
qed

theorem skipped_prefixes_left_unchanged_witness:
  "''https://'' \<in> {''http://'', ''https://'', ''data:'', ''image/''}
   \<and> startswith ''https://example.com/a.png'' ''https://''
   \<and> replace_md_img logo_env empty_state
        \<lparr>group0 = ''![a](https://example.com/a.png)'',
          group1 = ''https://example.com/a.png'', group2 = None\<rparr>
       = Inr (''![a](https://example.com/a.png)'', empty_state)"
proof -
  have a: "''https://'' \<in> {''http://'', ''https://'', ''data:'', ''image/''}"
    by simp
  have b: "startswith ''https://example.com/a.png'' ''https://''"
    by (simp add: startswith_def)
  from skipped_prefixes_left_unchanged [OF a, of
      "\<lparr>group0 = ''![a](https://example.com/a.png)'',
        group1 = ''https://example.com/a.png'', group2 = None\<rparr>" logo_env empty_state]
    a b show ?thesis by simp
qed

lemma external_url_document:
  "process_single_markdown logo_env empty_state ''see ![a](https://example.com/a.png)!''
     = Inr (''see ![a](https://example.com/a.png)!'', empty_state)"
  by code_simp

text \<open>
  Claim C10. The embed callback resolves the stripped token. A reference whose token is
  already the stripped form of another one's, with the same size parameter, is located at
  the same place; when that place is found the two calls agree on everything (tag, copy,
  messages, error), and when it is not each returns its own text with the same message.
\<close>

theorem token_stripped_before_resolution:
  assumes "group1 m' = py_strip (group1 m)" and "group2 m' = group2 m"
  shows "locate_image_by_token e (py_strip (group1 m'))
           = locate_image_by_token e (py_strip (group1 m))
    \<and> (if locate_image_by_token e (py_strip (group1 m)) = Inr None
       then repl_obsidian e s m
              = Inr (group0 m, s\<lparr>diag := diag s @ [ImageNotFound (py_strip (group1 m))]\<rparr>)
          \<and> repl_obsidian e s m'
              = Inr (group0 m', s\<lparr>diag := diag s @ [ImageNotFound (py_strip (group1 m))]\<rparr>)
       else repl_obsidian e s m' = repl_obsidian e s m)"
proof -
  have tok: "py_strip (group1 m') = py_strip (group1 m)"
    using assms(1) by (simp add: py_strip_idem)
  show ?thesis
    unfolding repl_obsidian_def Let_def tok assms(2)
    by (auto split: sum.splits option.splits)
qed

theorem token_stripped_before_resolution_witness:
  "group1 \<lparr>group0 = ''![[logo]]'', group1 = ''logo'', group2 = None\<rparr>
     = py_strip (group1 \<lparr>group0 = ''![[ logo ]]'', group1 = '' logo '', group2 = None\<rparr>)
   \<and> locate_image_by_token logo_env (py_strip '' logo '') = Inr (Some logo_path)
   \<and> repl_obsidian logo_env empty_state
        \<lparr>group0 = ''![[logo]]'', group1 = ''logo'', group2 = None\<rparr>
     = repl_obsidian logo_env empty_state
        \<lparr>group0 = ''![[ logo ]]'', group1 = '' logo '', group2 = None\<rparr>"
proof -
  let ?m = "\<lparr>group0 = ''![[ logo ]]'', group1 = '' logo '', group2 = None\<rparr>"
  let ?m' = "\<lparr>group0 = ''![[logo]]'', group1 = ''logo'', group2 = None\<rparr>"
  have a: "group1 ?m' = py_strip (group1 ?m)"
    by code_simp
  have b: "group2 ?m' = group2 ?m"
    by simp
  have loc: "locate_image_by_token logo_env (py_strip '' logo '') = Inr (Some logo_path)"
    by code_simp
  from token_stripped_before_resolution [OF a b, of logo_env empty_state] a loc
  show ?thesis by simp
qed

lemma padded_token_document:
  "process_single_markdown logo_env empty_state ''![[ logo ]]''
     = process_single_markdown logo_env empty_state ''![[logo]]''"
  by code_simp

section \<open>Properties of the search\<close>

lemma set_names_kids:
  "set (names_kids ks) = fst ` set ks \<union> (\<Union>(n, t) \<in> set ks. set (names_node t))"
proof (induction ks)
  case Nil
  then show ?case by simp
next
  case (Cons k ks)
  obtain n t where k: "k = (n, t)" by (cases k)
  show ?case
    unfolding k using Cons by (simp add: Un_ac)
qed

lemma rglob_empty_iff:
  "rglob_node cand pre t = [] \<longleftrightarrow> cand \<notin> set (names_node t)"
  "rglob_kids cand pre ks = [] \<longleftrightarrow> (\<forall>(n, t) \<in> set ks. cand \<notin> set (names_node t))"
proof (induction cand pre t and cand pre ks rule: rglob_node_rglob_kids.induct)
  case (2 cand pre ks)
  then show ?case
    by (auto simp: set_names_kids)
qed auto

lemma rglob_last:
  "p \<in> set (rglob_node cand pre t) \<Longrightarrow> p \<noteq> [] \<and> last p = cand"
  "p \<in> set (rglob_kids cand pre ks) \<Longrightarrow> p \<noteq> [] \<and> last p = cand"
  by (induction cand pre t and cand pre ks rule: rglob_node_rglob_kids.induct)
    (auto split: if_splits)

lemma search_candidates_none:
  assumes "list_all (\<lambda>c. c \<noteq> [] \<and> c \<noteq> ''..'' \<and> \<not> is_magic c
              \<and> c \<notin> set (names_kids (att_root e))) cs"
  shows "search_candidates e cs = Inr None"
  using assms
proof (induction cs)
  case Nil
  then show ?case by simp
next
  case (Cons c cs)
  then have c: "c \<noteq> []" "c \<noteq> ''..''" "\<not> is_magic c" "c \<notin> set (names_kids (att_root e))"
    by simp_all
  have "\<not> exists_under_root e c"
    using c by (auto simp: exists_under_root_def set_names_kids)
  moreover have "rglob e c = Inr []"
    using c by (auto simp: rglob_def rglob_empty_iff set_names_kids)
  ultimately show ?case
    using Cons by simp
qed

lemma locate_none:
  "no_attachment e token \<Longrightarrow> locate_image_by_token e token = Inr None"
  by (simp add: no_attachment_def locate_image_by_token_def search_candidates_none)

lemma search_candidates_skip:
  assumes "list_all (\<lambda>c. c \<noteq> [] \<and> c \<noteq> ''..'' \<and> \<not> is_magic c
              \<and> c \<notin> set (names_kids (att_root e))) pre"
  shows "search_candidates e (pre @ cs) = search_candidates e cs"
  using assms
proof (induction pre)
  case Nil
  then show ?case by simp
next
  case (Cons c pre)
  then have c: "c \<noteq> []" "c \<noteq> ''..''" "\<not> is_magic c" "c \<notin> set (names_kids (att_root e))"
    by simp_all
  have "\<not> exists_under_root e c"
    using c by (auto simp: exists_under_root_def set_names_kids)
  moreover have "rglob e c = Inr []"
    using c by (auto simp: rglob_def rglob_empty_iff set_names_kids)
  ultimately show ?case
    using Cons by simp
qed

text \<open>
  The search is blind to depth: a candidate that names an entry anywhere below the
  attachment directory is found, as the entry directly under the root if there is one
  and as the first hit of the recursive search otherwise.
\<close>

lemma search_candidates_hit:
  assumes "cand \<in> set (names_kids (att_root e))" and "\<not> is_magic cand"
    and "cand \<noteq> []" and "cand \<noteq> ''..''"
  shows "\<exists>p. search_candidates e (cand # cs) = Inr (Some (AttEntry p))
            \<and> p \<noteq> [] \<and> last p = cand
            \<and> (cand \<in> set (map fst (att_root e)) \<longrightarrow> p = [cand])"
proof (cases "exists_under_root e cand")
  case True
  with assms show ?thesis
    by (auto simp: root_path_def exists_under_root_def)
next
  case False
  have "rglob_node cand [] (Dir (att_root e)) \<noteq> []"
    using assms(1) rglob_empty_iff(1) [of cand "[]" "Dir (att_root e)"] by simp
  then obtain p ps where hits: "rglob_node cand [] (Dir (att_root e)) = p # ps"
    by (cases "rglob_node cand [] (Dir (att_root e))") auto
  then have "p \<in> set (rglob_node cand [] (Dir (att_root e)))"
    by simp
  then have "p \<noteq> [] \<and> last p = cand"
    by (rule rglob_last)
  moreover have "search_candidates e (cand # cs) = Inr (Some (AttEntry p))"
    using False assms(2) hits by (simp add: rglob_def)
  moreover have "cand \<notin> set (map fst (att_root e))"
    using False by (simp add: exists_under_root_def)
  ultimately show ?thesis by blast
qed

text \<open>
  Claim C5 concludes that a token with a matching attachment anywhere in the subtree is
  resolved to that file. The search accepts whatever \<^verbatim>\<open>exists()\<close>, a directory
  included, and the bare name is its first candidate: with the folder
  \<^verbatim>\<open>logo/\<close> holding \<^verbatim>\<open>logo.png\<close>, the token \<^verbatim>\<open>logo\<close> is resolved to the folder, the
  copy of a directory raises, and the document is not processed.
\<close>

theorem folder_shadows_attachment:
  "lookup_path (att_root folder_env) [''logo'', ''logo.png''] = Some (File ''PNG'')
   \<and> locate_image_by_token folder_env ''logo'' = Inr (Some (AttEntry [''logo'']))
   \<and> att_source folder_env (AttEntry [''logo''])
       = (''logo'', Dir [(''logo.png'', File ''PNG'')])
   \<and> process_single_markdown folder_env empty_state ''![[logo]]'' = Inl IsADirectoryError"
  by code_simp

section \<open>References that are not found\<close>

text \<open>
  Claim C9 has a diagnostic printed for every reference that is not found, of either
  syntax. \<^verbatim>\<open>replace_md_img\<close> returns the matched text without printing: the state, and
  with it the list of messages, is the one before the call.
\<close>

theorem standard_reference_not_found_prints_nothing:
  "no_attachment logo_env (path_name (py_strip ''nope.png''))
   \<and> doc_file logo_env \<lparr>image_dir = [], diag = []\<rparr> (py_strip ''nope.png'') = None
   \<and> replace_md_img logo_env \<lparr>image_dir = [], diag = []\<rparr>
        \<lparr>group0 = ''![x](nope.png)'', group1 = ''nope.png'', group2 = None\<rparr>
       = Inr (''![x](nope.png)'', \<lparr>image_dir = [], diag = []\<rparr>)"
  by code_simp

text \<open>
  Claim C9 as amended. When no candidate of the token names an entry of the attachment
  tree, the embed callback returns the matched text, copies nothing and prints the
  not-found message; under the same condition on the final component of the path, and
  with no regular file at the path relative to the document, the standard callback
  returns the matched text, copies nothing and prints nothing. Both return normally, so
  \<^verbatim>\<open>re.sub\<close> goes on with the rest of the text.
\<close>

theorem not_found_leaves_reference:
  "(no_attachment e (py_strip (group1 m)) \<longrightarrow>
      repl_obsidian e s m
        = Inr (group0 m, s\<lparr>diag := diag s @ [ImageNotFound (py_strip (group1 m))]\<rparr>))
   \<and> (doc_file e s (py_strip (group1 m)) = None
        \<and> no_attachment e (path_name (py_strip (group1 m))) \<longrightarrow>
      replace_md_img e s m = Inr (group0 m, s))"
proof (intro conjI impI)
  assume "no_attachment e (py_strip (group1 m))"
  then have "locate_image_by_token e (py_strip (group1 m)) = Inr None"
    by (rule locate_none)
  then show "repl_obsidian e s m
      = Inr (group0 m, s\<lparr>diag := diag s @ [ImageNotFound (py_strip (group1 m))]\<rparr>)"
    by (simp add: repl_obsidian_def)
next
  assume a: "doc_file e s (py_strip (group1 m)) = None
      \<and> no_attachment e (path_name (py_strip (group1 m)))"
  then have "locate_image_by_token e (path_name (py_strip (group1 m))) = Inr None"
    by (simp add: locate_none)
  with a show "replace_md_img e s m = Inr (group0 m, s)"
    by (simp add: replace_md_img_def Let_def)
qed

theorem not_found_leaves_reference_witness:
  "no_attachment logo_env (py_strip ''nope'')
   \<and> repl_obsidian logo_env empty_state
        \<lparr>group0 = ''![[nope]]'', group1 = ''nope'', group2 = None\<rparr>
       = Inr (''![[nope]]'', \<lparr>image_dir = [], diag = [ImageNotFound ''nope'']\<rparr>)
   \<and> doc_file logo_env empty_state (py_strip ''sub/nope.png'') = None
   \<and> no_attachment logo_env (path_name (py_strip ''sub/nope.png''))
   \<and> replace_md_img logo_env empty_state
        \<lparr>group0 = ''![x](sub/nope.png)'', group1 = ''sub/nope.png'', group2 = None\<rparr>
       = Inr (''![x](sub/nope.png)'', empty_state)"
proof -
  let ?m = "\<lparr>group0 = ''![[nope]]'', group1 = ''nope'', group2 = None\<rparr>"
  let ?n = "\<lparr>group0 = ''![x](sub/nope.png)'', group1 = ''sub/nope.png'', group2 = None\<rparr>"
  have a: "no_attachment logo_env (py_strip ''nope'')"
    by code_simp
  have b: "py_strip ''nope'' = ''nope''"
    by code_simp
  have c: "doc_file logo_env empty_state (py_strip ''sub/nope.png'') = None"
    by code_simp
  have d: "no_attachment logo_env (path_name (py_strip ''sub/nope.png''))"
    by code_simp
  from not_found_leaves_reference [of logo_env ?m empty_state]
    not_found_leaves_reference [of logo_env ?n empty_state] a b c d
  show ?thesis
    by (simp add: empty_state_def)
qed

lemma not_found_document:
  "process_single_markdown logo_env empty_state ''![[nope]] ![x](nope.png) ![[logo]]''
     = Inr (''![[nope]] ![x](nope.png) <img src='' @ dq @ ''image/logo.png'' @ dq @ ''>'',
            \<lparr>image_dir = [(''logo.png'', File ''PNG'')],
              diag = [ImageNotFound ''nope'', ImageCopied ''logo.png'' ''logo.png'']\<rparr>)"
  by code_simp

section \<open>Resolution of a standard-markup reference\<close>

lemma copy_file_succeeds:
  "\<exists>copied s'. copy_image_to_image_dir s (n, File c) = Inr (copied, s')"
  by (cases "image_exists (image_dir s) n") (simp_all add: copy_fresh copy_taken)

lemma split_sep_not_empty: "split_sep sep s \<noteq> []"
  by (induction s) (auto split: list.splits)

lemma split_sep_no_sep: "sep \<notin> set s \<Longrightarrow> split_sep sep s = [s]"
  by (induction s) auto

lemma split_sep_append:
  "split_sep sep (xs @ sep # ys) = split_sep sep xs @ split_sep sep ys"
proof (induction xs)
  case Nil
  show ?case by simp
next
  case (Cons x xs)
  obtain w ws where "split_sep sep xs = w # ws"
    using split_sep_not_empty [of sep xs] by (cases "split_sep sep xs") auto
  with Cons show ?case by simp
qed

text \<open>
  The final component: what stands behind the last slash of a path (the whole path when
  it has none) is its \<^verbatim>\<open>.name\<close>, provided it is a proper component.
\<close>

lemma path_name_final:
  assumes "CHR ''/'' \<notin> set base" and "base \<noteq> []" and "base \<noteq> ''.''"
    and "d = [] \<or> last d = CHR ''/''"
  shows "path_name (d @ base) = base"
proof (cases "d = []")
  case True
  with assms show ?thesis
    by (simp add: path_name_def path_parts_def split_sep_no_sep)
next
  case False
  with assms(4) obtain d' where d: "d = d' @ [CHR ''/'']"
    by (metis append_butlast_last_id)
  have "split_sep (CHR ''/'') (d @ base) = split_sep (CHR ''/'') d' @ [base]"
    using assms(1) by (simp add: d split_sep_append split_sep_no_sep)
  then have "path_parts (d @ base)
      = filter (\<lambda>x. x \<noteq> [] \<and> x \<noteq> ''.'') (split_sep (CHR ''/'') d') @ [base]"
    using assms(2,3) by (simp add: path_parts_def)
  then have "path_parts (d @ base) \<noteq> []" and "last (path_parts (d @ base)) = base"
    by simp_all
  then show ?thesis
    by (cases "path_parts (d @ base)") (simp_all add: path_name_def)
qed

text \<open>
  Claim C6. For a path that none of the four prefixes skips, the path relative to the
  document decides first. A regular file there is copied and the reference becomes the
  tag of the copy, whatever the attachment directory holds: under its own name when that
  is free, and, when the file is itself an entry of the output image directory, under a
  name other than its own. Only when there is no regular file at that place is the
  search called, and it is called with the final component of the path: what stands
  behind the last slash. Its answer then decides alone.
\<close>

theorem document_relative_path_first:
  assumes "\<not> startswith (py_strip (group1 m)) ''http://''"
    and "\<not> startswith (py_strip (group1 m)) ''https://''"
    and "\<not> startswith (py_strip (group1 m)) ''data:''"
    and "\<not> startswith (py_strip (group1 m)) ''image/''"
  shows "(\<forall>n c. doc_rel e (py_strip (group1 m)) = RelFile n c \<longrightarrow>
            (\<exists>copied s'.
               copy_image_to_image_dir s (n, File c) = Inr (copied, s')
               \<and> (\<not> image_exists (image_dir s) n \<longrightarrow> copied = n)
               \<and> image_dir s' = image_dir s @ [(copied, File c)]
               \<and> replace_md_img e s m = Inr (img_tag copied, s')))
    \<and> (\<forall>n c. doc_rel e (py_strip (group1 m)) = RelImage n
               \<and> map_of (image_dir s) n = Some (File c) \<longrightarrow>
            (\<exists>copied s'.
               copy_image_to_image_dir s (n, File c) = Inr (copied, s')
               \<and> copied \<noteq> n
               \<and> image_dir s' = image_dir s @ [(copied, File c)]
               \<and> replace_md_img e s m = Inr (img_tag copied, s')))
    \<and> ((\<forall>n c. doc_rel e (py_strip (group1 m)) \<noteq> RelFile n c)
        \<and> (\<forall>n c. doc_rel e (py_strip (group1 m)) = RelImage n \<longrightarrow>
                  map_of (image_dir s) n \<noteq> Some (File c)) \<longrightarrow>
          (\<forall>d base. py_strip (group1 m) = d @ base
               \<and> CHR ''/'' \<notin> set base \<and> base \<noteq> [] \<and> base \<noteq> ''.''
               \<and> (d = [] \<or> last d = CHR ''/'') \<longrightarrow>
             replace_md_img e s m =
               (case locate_image_by_token e base of
                  Inl err \<Rightarrow> Inl err
                | Inr None \<Rightarrow> Inr (group0 m, s)
                | Inr (Some p) \<Rightarrow>
                    (case copy_image_to_image_dir s (att_source e p) of
                       Inl err \<Rightarrow> Inl err
                     | Inr (copied, s') \<Rightarrow> Inr (img_tag copied, s')))))"
proof (intro conjI allI impI)
  fix n c
  assume rel: "doc_rel e (py_strip (group1 m)) = RelFile n c"
  obtain copied s' where cp: "copy_image_to_image_dir s (n, File c) = Inr (copied, s')"
    using copy_file_succeeds by blast
  have "\<not> image_exists (image_dir s) n \<longrightarrow> copied = n"
    using cp by (auto simp: copy_fresh)
  moreover have "image_dir s' = image_dir s @ [(copied, File c)]"
    using copy_file_result(2) [OF cp] .
  moreover have "replace_md_img e s m = Inr (img_tag copied, s')"
    using assms rel cp by (simp add: replace_md_img_def Let_def doc_file_def img_tag_def)
  ultimately show "\<exists>copied s'.
      copy_image_to_image_dir s (n, File c) = Inr (copied, s')
      \<and> (\<not> image_exists (image_dir s) n \<longrightarrow> copied = n)
      \<and> image_dir s' = image_dir s @ [(copied, File c)]
      \<and> replace_md_img e s m = Inr (img_tag copied, s')"
    using cp by blast
next
  fix n c
  assume rel: "doc_rel e (py_strip (group1 m)) = RelImage n
      \<and> map_of (image_dir s) n = Some (File c)"
  obtain copied s' where cp: "copy_image_to_image_dir s (n, File c) = Inr (copied, s')"
    using copy_file_succeeds by blast
  have "image_exists (image_dir s) n"
    using rel by (auto simp: image_exists_def dest: map_of_SomeD intro: image_eqI [where x = "(n, File c)"])
  moreover have "\<not> image_exists (image_dir s) copied"
    using copy_file_result(1) [OF cp] .
  ultimately have "copied \<noteq> n"
    by auto
  moreover have "image_dir s' = image_dir s @ [(copied, File c)]"
    using copy_file_result(2) [OF cp] .
  moreover have "replace_md_img e s m = Inr (img_tag copied, s')"
    using assms rel cp by (simp add: replace_md_img_def Let_def doc_file_def img_tag_def)
  ultimately show "\<exists>copied s'.
      copy_image_to_image_dir s (n, File c) = Inr (copied, s')
      \<and> copied \<noteq> n
      \<and> image_dir s' = image_dir s @ [(copied, File c)]
      \<and> replace_md_img e s m = Inr (img_tag copied, s')"
    using cp by blast
next
  fix d base
  assume nofile: "(\<forall>n c. doc_rel e (py_strip (group1 m)) \<noteq> RelFile n c)
      \<and> (\<forall>n c. doc_rel e (py_strip (group1 m)) = RelImage n \<longrightarrow>
                map_of (image_dir s) n \<noteq> Some (File c))"
    and shape: "py_strip (group1 m) = d @ base
      \<and> CHR ''/'' \<notin> set base \<and> base \<noteq> [] \<and> base \<noteq> ''.''
      \<and> (d = [] \<or> last d = CHR ''/'')"
  have none: "doc_file e s (py_strip (group1 m)) = None"
    using nofile
    by (auto simp: doc_file_def split: rel_target.splits option.splits node.splits)
  have name: "path_name (py_strip (group1 m)) = base"
    using shape path_name_final [of base d] by simp
  show "replace_md_img e s m =
      (case locate_image_by_token e base of
         Inl err \<Rightarrow> Inl err
       | Inr None \<Rightarrow> Inr (group0 m, s)
       | Inr (Some p) \<Rightarrow>
           (case copy_image_to_image_dir s (att_source e p) of
              Inl err \<Rightarrow> Inl err
            | Inr (copied, s') \<Rightarrow> Inr (img_tag copied, s')))"
    using assms none
    by (simp add: replace_md_img_def Let_def img_tag_def name split: sum.splits option.splits)
qed

theorem document_relative_path_first_witness:
  "\<not> startswith (py_strip ''./cover.jpg'') ''http://''
   \<and> \<not> startswith (py_strip ''./cover.jpg'') ''https://''
   \<and> \<not> startswith (py_strip ''./cover.jpg'') ''data:''
   \<and> \<not> startswith (py_strip ''./cover.jpg'') ''image/''
   \<and> doc_rel cover_env (py_strip ''./cover.jpg'') = RelFile ''cover.jpg'' ''JPG''
   \<and> replace_md_img cover_env empty_state
        \<lparr>group0 = ''![cover](./cover.jpg)'', group1 = ''./cover.jpg'', group2 = None\<rparr>
       = Inr (img_tag ''cover.jpg'',
              \<lparr>image_dir = [(''cover.jpg'', File ''JPG'')],
                diag = [ImageCopied ''cover.jpg'' ''cover.jpg'']\<rparr>)
   \<and> doc_rel pic_env (py_strip ''./image/pic.png'') = RelImage ''pic.png''
   \<and> replace_md_img pic_env \<lparr>image_dir = [(''pic.png'', File ''PNG'')], diag = []\<rparr>
        \<lparr>group0 = ''![a](./image/pic.png)'', group1 = ''./image/pic.png'', group2 = None\<rparr>
       = Inr (img_tag ''pic_1.png'',
              \<lparr>image_dir = [(''pic.png'', File ''PNG''), (''pic_1.png'', File ''PNG'')],
                diag = [ImageCopied ''pic.png'' ''pic_1.png'']\<rparr>)
   \<and> doc_rel logo_env (py_strip ''../attach/logo.png'') = RelMissing
   \<and> py_strip ''../attach/logo.png'' = ''../attach/'' @ ''logo.png''
   \<and> locate_image_by_token logo_env ''logo.png'' = Inr (Some logo_path)
   \<and> replace_md_img logo_env empty_state
        \<lparr>group0 = ''![x](../attach/logo.png)'', group1 = ''../attach/logo.png'',
          group2 = None\<rparr>
       = Inr (img_tag ''logo.png'',
              \<lparr>image_dir = [(''logo.png'', File ''PNG'')],
                diag = [ImageCopied ''logo.png'' ''logo.png'']\<rparr>)"
proof -
  let ?m = "\<lparr>group0 = ''![cover](./cover.jpg)'', group1 = ''./cover.jpg'', group2 = None\<rparr>"
  let ?n = "\<lparr>group0 = ''![a](./image/pic.png)'', group1 = ''./image/pic.png'',
             group2 = None\<rparr>"
  let ?l = "\<lparr>group0 = ''![x](../attach/logo.png)'', group1 = ''../attach/logo.png'',
             group2 = None\<rparr>"
  let ?sp = "\<lparr>image_dir = [(''pic.png'', File ''PNG'')], diag = []\<rparr>"
  have a: "\<not> startswith (py_strip (group1 ?m)) ''http://''"
    and b: "\<not> startswith (py_strip (group1 ?m)) ''https://''"
    and c: "\<not> startswith (py_strip (group1 ?m)) ''data:''"
    and d: "\<not> startswith (py_strip (group1 ?m)) ''image/''"
    by code_simp+
  have rel: "doc_rel cover_env (py_strip (group1 ?m)) = RelFile ''cover.jpg'' ''JPG''"
    by code_simp
  have cp: "copy_image_to_image_dir empty_state (''cover.jpg'', File ''JPG'')
      = Inr (''cover.jpg'', \<lparr>image_dir = [(''cover.jpg'', File ''JPG'')],
                              diag = [ImageCopied ''cover.jpg'' ''cover.jpg'']\<rparr>)"
    by code_simp
  from document_relative_path_first [OF a b c d, of cover_env empty_state] rel
  obtain copied s' where
    "copy_image_to_image_dir empty_state (''cover.jpg'', File ''JPG'') = Inr (copied, s')"
    and "replace_md_img cover_env empty_state ?m = Inr (img_tag copied, s')"
    by blast
  with cp have first: "replace_md_img cover_env empty_state ?m
      = Inr (img_tag ''cover.jpg'', \<lparr>image_dir = [(''cover.jpg'', File ''JPG'')],
                              diag = [ImageCopied ''cover.jpg'' ''cover.jpg'']\<rparr>)"
    by simp
  have a2: "\<not> startswith (py_strip (group1 ?n)) ''http://''"
    and b2: "\<not> startswith (py_strip (group1 ?n)) ''https://''"
    and c2: "\<not> startswith (py_strip (group1 ?n)) ''data:''"
    and d2: "\<not> startswith (py_strip (group1 ?n)) ''image/''"
    by code_simp+
  have rel2: "doc_rel pic_env (py_strip (group1 ?n)) = RelImage ''pic.png''"
    by code_simp
  have there: "map_of (image_dir ?sp) ''pic.png'' = Some (File ''PNG'')"
    by simp
  have cp2: "copy_image_to_image_dir ?sp (''pic.png'', File ''PNG'')
      = Inr (''pic_1.png'',
             \<lparr>image_dir = [(''pic.png'', File ''PNG''), (''pic_1.png'', File ''PNG'')],
               diag = [ImageCopied ''pic.png'' ''pic_1.png'']\<rparr>)"
    by code_simp
  from document_relative_path_first [OF a2 b2 c2 d2, of pic_env ?sp] rel2 there
  obtain copied2 s2 where
    "copy_image_to_image_dir ?sp (''pic.png'', File ''PNG'') = Inr (copied2, s2)"
    and "replace_md_img pic_env ?sp ?n = Inr (img_tag copied2, s2)"
    by blast
  with cp2 have second: "replace_md_img pic_env ?sp ?n
      = Inr (img_tag ''pic_1.png'',
             \<lparr>image_dir = [(''pic.png'', File ''PNG''), (''pic_1.png'', File ''PNG'')],
               diag = [ImageCopied ''pic.png'' ''pic_1.png'']\<rparr>)"
    by simp
  have a3: "\<not> startswith (py_strip (group1 ?l)) ''http://''"
    and b3: "\<not> startswith (py_strip (group1 ?l)) ''https://''"
    and c3: "\<not> startswith (py_strip (group1 ?l)) ''data:''"
    and d3: "\<not> startswith (py_strip (group1 ?l)) ''image/''"
    by code_simp+
  have rel3: "doc_rel logo_env (py_strip (group1 ?l)) = RelMissing"
    by code_simp
  have shape: "py_strip (group1 ?l) = ''../attach/'' @ ''logo.png''"
    by code_simp
  have loc: "locate_image_by_token logo_env ''logo.png'' = Inr (Some logo_path)"
    by code_simp
  have cp3: "copy_image_to_image_dir empty_state (att_source logo_env logo_path)
      = Inr (''logo.png'', \<lparr>image_dir = [(''logo.png'', File ''PNG'')],
                              diag = [ImageCopied ''logo.png'' ''logo.png'']\<rparr>)"
    by code_simp
  have nofile: "(\<forall>n c. doc_rel logo_env (py_strip (group1 ?l)) \<noteq> RelFile n c)
      \<and> (\<forall>n c. doc_rel logo_env (py_strip (group1 ?l)) = RelImage n \<longrightarrow>
                map_of (image_dir empty_state) n \<noteq> Some (File c))"
    using rel3 by simp
  have base: "CHR ''/'' \<notin> set ''logo.png'' \<and> ''logo.png'' \<noteq> [] \<and> ''logo.png'' \<noteq> ''.''
      \<and> (''../attach/'' = [] \<or> last ''../attach/'' = CHR ''/'')"
    by simp
  from document_relative_path_first [OF a3 b3 c3 d3, of logo_env empty_state] nofile shape base
  have "replace_md_img logo_env empty_state ?l =
      (case locate_image_by_token logo_env ''logo.png'' of
         Inl err \<Rightarrow> Inl err
       | Inr None \<Rightarrow> Inr (group0 ?l, empty_state)
       | Inr (Some p) \<Rightarrow>
           (case copy_image_to_image_dir empty_state (att_source logo_env p) of
              Inl err \<Rightarrow> Inl err
            | Inr (copied, s') \<Rightarrow> Inr (img_tag copied, s')))"
    by blast
  then have third: "replace_md_img logo_env empty_state ?l
      = Inr (img_tag ''logo.png'', \<lparr>image_dir = [(''logo.png'', File ''PNG'')],
                              diag = [ImageCopied ''logo.png'' ''logo.png'']\<rparr>)"
    by (simp add: loc cp3)
  from a b c d rel first rel2 second rel3 shape loc third show ?thesis
    by simp
qed

lemma cover_document:
  \<open>process_single_markdown cover_env empty_state ''![cover](./cover.jpg)''
     = Inr (''<img src="image/cover.jpg">'',
            \<lparr>image_dir = [(''cover.jpg'', File ''JPG'')],
              diag = [ImageCopied ''cover.jpg'' ''cover.jpg'']\<rparr>)\<close>
  by code_simp

lemma fallback_uses_final_component:
  \<open>process_single_markdown logo_env empty_state ''![x](../attach/logo.png)''
     = Inr (''<img src="image/logo.png">'',
            \<lparr>image_dir = [(''logo.png'', File ''PNG'')],
              diag = [ImageCopied ''logo.png'' ''logo.png'']\<rparr>)\<close>
  by code_simp

section \<open>The size parameter of an embed reference\<close>

lemma takeWhile_digits_then:
  "list_all is_digit w \<Longrightarrow> \<not> is_digit c \<Longrightarrow> takeWhile is_digit (w @ c # r) = w"
  "list_all is_digit w \<Longrightarrow> \<not> is_digit c \<Longrightarrow> dropWhile is_digit (w @ c # r) = c # r"
  by (induction w) auto

lemma digits_only:
  "list_all is_digit h \<Longrightarrow> takeWhile is_digit h = h"
  "list_all is_digit h \<Longrightarrow> dropWhile is_digit h = []"
  by (induction h) auto

lemma not_digit_x: "\<not> is_digit (CHR ''x'')" and not_digit_nl: "\<not> is_digit (CHR 0x0A)"
  by (simp_all add: is_digit_def)

text \<open>
  What \<^verbatim>\<open>re.match(r"(\d+)x(\d+)$", dims)\<close> accepts: the shape \<^verbatim>\<open>WxH\<close>, and the same
  followed by one newline.
\<close>

lemma match_dims_iff:
  "match_dims d = Some (w, h) \<longleftrightarrow> wxh d w h \<or> (\<exists>d'. d = d' @ [CHR 0x0A] \<and> wxh d' w h)"
proof
  assume m: "match_dims d = Some (w, h)"
  let ?w = "takeWhile is_digit d" and ?r1 = "dropWhile is_digit d"
  from m have w: "?w \<noteq> []"
    by (auto simp: match_dims_def Let_def split: if_splits)
  from m obtain r2 where r1: "?r1 = CHR ''x'' # r2"
    by (auto simp: match_dims_def Let_def split: if_splits list.splits)
  let ?h = "takeWhile is_digit r2" and ?r3 = "dropWhile is_digit r2"
  from m r1 have h: "?h \<noteq> []" and r3: "?r3 = [] \<or> ?r3 = [CHR 0x0A]"
    and wh: "w = ?w" "h = ?h"
    by (auto simp: match_dims_def Let_def split: if_splits)
  have d: "d = ?w @ CHR ''x'' # ?h @ ?r3"
    using r1 by (metis takeWhile_dropWhile_id)
  have digits: "list_all is_digit ?w" "list_all is_digit ?h"
    by (simp_all add: list_all_iff) (meson set_takeWhileD)+
  from r3 show "wxh d w h \<or> (\<exists>d'. d = d' @ [CHR 0x0A] \<and> wxh d' w h)"
  proof
    assume "?r3 = []"
    with d w h digits wh have "wxh d w h"
      by (simp add: wxh_def)
    then show ?thesis ..
  next
    assume "?r3 = [CHR 0x0A]"
    with d have "d = (?w @ ''x'' @ ?h) @ [CHR 0x0A]"
      by simp
    moreover have "wxh (?w @ ''x'' @ ?h) w h"
      using w h digits wh by (simp add: wxh_def)
    ultimately show ?thesis by blast
  qed
next
  assume "wxh d w h \<or> (\<exists>d'. d = d' @ [CHR 0x0A] \<and> wxh d' w h)"
  then show "match_dims d = Some (w, h)"
  proof
    assume "wxh d w h"
    then have d: "d = w @ CHR ''x'' # h" and w: "w \<noteq> []" "list_all is_digit w"
      and h: "h \<noteq> []" "list_all is_digit h"
      by (auto simp: wxh_def)
    have tw: "takeWhile is_digit d = w" and dw: "dropWhile is_digit d = CHR ''x'' # h"
      unfolding d using w by (simp_all only: takeWhile_digits_then not_digit_x not_False_eq_True)
    have th: "takeWhile is_digit h = h" and dh: "dropWhile is_digit h = []"
      using h by (simp_all only: digits_only)
    show ?thesis
      unfolding match_dims_def Let_def tw dw using w h by (simp add: th dh del: takeWhile_eq_all_conv dropWhile_eq_Nil_conv)
  next
    assume "\<exists>d'. d = d' @ [CHR 0x0A] \<and> wxh d' w h"
    then have d: "d = w @ CHR ''x'' # h @ [CHR 0x0A]" and w: "w \<noteq> []" "list_all is_digit w"
      and h: "h \<noteq> []" "list_all is_digit h"
      by (auto simp: wxh_def)
    have tw: "takeWhile is_digit d = w"
      and dw: "dropWhile is_digit d = CHR ''x'' # h @ [CHR 0x0A]"
      unfolding d using w by (simp_all only: takeWhile_digits_then not_digit_x not_False_eq_True)
    have th: "takeWhile is_digit (h @ [CHR 0x0A]) = h"
      and dh: "dropWhile is_digit (h @ [CHR 0x0A]) = [CHR 0x0A]"
      using h by (simp_all only: takeWhile_digits_then not_digit_nl not_False_eq_True)
    show ?thesis
      unfolding match_dims_def Let_def tw dw using w h by (simp add: th dh del: takeWhile_eq_all_conv dropWhile_eq_Nil_conv)
  qed
qed

lemma wxh_last_digit: "wxh d w h \<Longrightarrow> is_digit (last d)"
  by (auto simp: wxh_def list_all_iff)

lemma size_attrs_wxh:
  assumes "wxh (strip_chars ''|'' param) w h"
  shows "size_attrs (Some param) = '' width='' @ dq @ w @ dq @ '' height='' @ dq @ h @ dq"
proof -
  have "match_dims (strip_chars ''|'' param) = Some (w, h)"
    using assms by (simp add: match_dims_iff)
  moreover have "param \<noteq> []"
    using assms by (auto simp: wxh_def strip_chars_def strip_with_def)
  ultimately show ?thesis
    by (simp add: size_attrs_def)
qed

lemma size_attrs_other:
  assumes "\<nexists>w h. wxh (strip_chars ''|'' param) w h
             \<or> (\<exists>d'. strip_chars ''|'' param = d' @ [CHR 0x0A] \<and> wxh d' w h)"
  shows "size_attrs (Some param) = []"
proof -
  have "match_dims (strip_chars ''|'' param) = None"
  proof (cases "match_dims (strip_chars ''|'' param)")
    case None
    then show ?thesis .
  next
    case (Some wh)
    obtain w h where "wh = (w, h)" by (cases wh)
    with Some have "match_dims (strip_chars ''|'' param) = Some (w, h)"
      by simp
    then have "wxh (strip_chars ''|'' param) w h
        \<or> (\<exists>d'. strip_chars ''|'' param = d' @ [CHR 0x0A] \<and> wxh d' w h)"
      by (simp only: match_dims_iff)
    with assms show ?thesis
      by blast
  qed
  then show ?thesis
    by (simp add: size_attrs_def)
qed

text \<open>
  Claim C7 reads: width and height are emitted exactly when the parameter has the exact
  shape \<^verbatim>\<open>WxH\<close>. Two parameters that do not have it are given the attributes all the
  same: \<^verbatim>\<open>100x50|\<close>, because every leading and trailing bar is stripped, and \<^verbatim>\<open>100x50\<close>
  followed by a newline, because \<^verbatim>\<open>$\<close> matches before a final newline.
\<close>

theorem malformed_parameters_get_attributes:
  "(\<nexists>w h. wxh ''100x50|'' w h)
   \<and> repl_obsidian logo_env empty_state
        \<lparr>group0 = ''![[logo|100x50|]]'', group1 = ''logo'', group2 = Some ''|100x50|''\<rparr>
       = Inr (size_tag ''logo.png'' ''100'' ''50'',
              \<lparr>image_dir = [(''logo.png'', File ''PNG'')],
                diag = [ImageCopied ''logo.png'' ''logo.png'']\<rparr>)
   \<and> (\<nexists>w h. wxh (''100x50'' @ [CHR 0x0A]) w h)
   \<and> repl_obsidian logo_env empty_state
        \<lparr>group0 = ''![[logo|100x50'' @ [CHR 0x0A] @ '']]'', group1 = ''logo'',
          group2 = Some (''|100x50'' @ [CHR 0x0A])\<rparr>
       = Inr (size_tag ''logo.png'' ''100'' ''50'',
              \<lparr>image_dir = [(''logo.png'', File ''PNG'')],
                diag = [ImageCopied ''logo.png'' ''logo.png'']\<rparr>)"
proof -
  have "\<not> is_digit (last ''100x50|'')" and "\<not> is_digit (last (''100x50'' @ [CHR 0x0A]))"
    by (simp_all add: is_digit_def)
  then have "\<nexists>w h. wxh ''100x50|'' w h" and "\<nexists>w h. wxh (''100x50'' @ [CHR 0x0A]) w h"
    using wxh_last_digit by blast+
  moreover have "repl_obsidian logo_env empty_state
        \<lparr>group0 = ''![[logo|100x50|]]'', group1 = ''logo'', group2 = Some ''|100x50|''\<rparr>
       = Inr (size_tag ''logo.png'' ''100'' ''50'',
              \<lparr>image_dir = [(''logo.png'', File ''PNG'')],
                diag = [ImageCopied ''logo.png'' ''logo.png'']\<rparr>)"
    by code_simp
  moreover have "repl_obsidian logo_env empty_state
        \<lparr>group0 = ''![[logo|100x50'' @ [CHR 0x0A] @ '']]'', group1 = ''logo'',
          group2 = Some (''|100x50'' @ [CHR 0x0A])\<rparr>
       = Inr (size_tag ''logo.png'' ''100'' ''50'',
              \<lparr>image_dir = [(''logo.png'', File ''PNG'')],
                diag = [ImageCopied ''logo.png'' ''logo.png'']\<rparr>)"
    by code_simp
  ultimately show ?thesis by blast
qed

text \<open>
  Claim C7 as amended. For an embed reference that is resolved and copied, with a
  parameter: when the parameter without its leading and trailing bars is \<^verbatim>\<open>WxH\<close>, the tag
  carries \<^verbatim>\<open>width="W"\<close> and \<^verbatim>\<open>height="H"\<close>; when it is neither \<^verbatim>\<open>WxH\<close> nor \<^verbatim>\<open>WxH\<close>
  followed by one newline, the tag carries no size attribute. In both cases the call
  returns normally.
\<close>

theorem size_attributes_from_parameter:
  assumes "locate_image_by_token e (py_strip (group1 m)) = Inr (Some p)"
    and "copy_image_to_image_dir s (att_source e p) = Inr (copied, s')"
    and "group2 m = Some param"
  shows "(\<forall>w h. wxh (strip_chars ''|'' param) w h \<longrightarrow>
            repl_obsidian e s m = Inr (size_tag copied w h, s'))
    \<and> ((\<nexists>w h. wxh (strip_chars ''|'' param) w h
               \<or> (\<exists>d'. strip_chars ''|'' param = d' @ [CHR 0x0A] \<and> wxh d' w h)) \<longrightarrow>
          repl_obsidian e s m = Inr (img_tag copied, s'))"
proof (intro conjI allI impI)
  fix w h
  assume "wxh (strip_chars ''|'' param) w h"
  then have "size_attrs (Some param) = '' width='' @ dq @ w @ dq @ '' height='' @ dq @ h @ dq"
    by (rule size_attrs_wxh)
  with assms show "repl_obsidian e s m = Inr (size_tag copied w h, s')"
    by (simp add: repl_obsidian_def size_tag_def)
next
  assume "\<nexists>w h. wxh (strip_chars ''|'' param) w h
             \<or> (\<exists>d'. strip_chars ''|'' param = d' @ [CHR 0x0A] \<and> wxh d' w h)"
  then have "size_attrs (Some param) = []"
    by (rule size_attrs_other)
  with assms show "repl_obsidian e s m = Inr (img_tag copied, s')"
    by (simp add: repl_obsidian_def img_tag_def)
qed

theorem size_attributes_from_parameter_witness:
  "locate_image_by_token logo_env (py_strip ''logo'') = Inr (Some logo_path)
   \<and> copy_image_to_image_dir empty_state (att_source logo_env logo_path)
       = Inr (''logo.png'', \<lparr>image_dir = [(''logo.png'', File ''PNG'')],
                              diag = [ImageCopied ''logo.png'' ''logo.png'']\<rparr>)
   \<and> wxh (strip_chars ''|'' ''|100x50'') ''100'' ''50''
   \<and> repl_obsidian logo_env empty_state
        \<lparr>group0 = ''![[logo|100x50]]'', group1 = ''logo'', group2 = Some ''|100x50''\<rparr>
       = Inr (size_tag ''logo.png'' ''100'' ''50'',
              \<lparr>image_dir = [(''logo.png'', File ''PNG'')],
                diag = [ImageCopied ''logo.png'' ''logo.png'']\<rparr>)
   \<and> (\<nexists>w h. wxh (strip_chars ''|'' ''|big'') w h
             \<or> (\<exists>d'. strip_chars ''|'' ''|big'' = d' @ [CHR 0x0A] \<and> wxh d' w h))
   \<and> repl_obsidian logo_env empty_state
        \<lparr>group0 = ''![[logo|big]]'', group1 = ''logo'', group2 = Some ''|big''\<rparr>
       = Inr (img_tag ''logo.png'',
              \<lparr>image_dir = [(''logo.png'', File ''PNG'')],
                diag = [ImageCopied ''logo.png'' ''logo.png'']\<rparr>)"
proof -
  let ?s' = "\<lparr>image_dir = [(''logo.png'', File ''PNG'')],
              diag = [ImageCopied ''logo.png'' ''logo.png'']\<rparr>"
  let ?m = "\<lparr>group0 = ''![[logo|100x50]]'', group1 = ''logo'', group2 = Some ''|100x50''\<rparr>"
  let ?n = "\<lparr>group0 = ''![[logo|big]]'', group1 = ''logo'', group2 = Some ''|big''\<rparr>"
  have loc: "locate_image_by_token logo_env (py_strip ''logo'') = Inr (Some logo_path)"
    by code_simp
  have cp: "copy_image_to_image_dir empty_state (att_source logo_env logo_path)
      = Inr (''logo.png'', ?s')"
    by code_simp
  have good: "wxh (strip_chars ''|'' ''|100x50'') ''100'' ''50''"
    by code_simp
  have big: "strip_chars ''|'' ''|big'' = ''big''"
    by code_simp
  have "\<not> is_digit (last ''big'')"
    by (simp add: is_digit_def)
  then have no1: "\<nexists>w h. wxh ''big'' w h"
    using wxh_last_digit by blast
  have no2: "\<nexists>d'. ''big'' = d' @ [CHR 0x0A]"
  proof
    assume "\<exists>d'. ''big'' = d' @ [CHR 0x0A]"
    then obtain d' where "''big'' = d' @ [CHR 0x0A]" ..
    then have "last ''big'' = last (d' @ [CHR 0x0A])"
      by (rule arg_cong)
    then show False by simp
  qed
  have bad: "\<nexists>w h. wxh (strip_chars ''|'' ''|big'') w h
             \<or> (\<exists>d'. strip_chars ''|'' ''|big'' = d' @ [CHR 0x0A] \<and> wxh d' w h)"
    unfolding big using no1 no2 by blast
  have m: "locate_image_by_token logo_env (py_strip (group1 ?m)) = Inr (Some logo_path)"
    and n: "locate_image_by_token logo_env (py_strip (group1 ?n)) = Inr (Some logo_path)"
    using loc by simp_all
  have "repl_obsidian logo_env empty_state ?m = Inr (size_tag ''logo.png'' ''100'' ''50'', ?s')"
    using size_attributes_from_parameter [OF m cp, of "''|100x50''"] good by simp
  moreover have "repl_obsidian logo_env empty_state ?n = Inr (img_tag ''logo.png'', ?s')"
    using size_attributes_from_parameter [OF n cp, of "''|big''"] bad by simp
  ultimately show ?thesis
    using loc cp good bad by blast
qed

lemma logo_scenario_document:
  \<open>process_single_markdown logo_env empty_state ''![[logo]] and ![[logo|100x50]]''
     = Inr (''<img src="image/logo.png"> and <img src="image/logo_1.png" width="100" height="50">'',
            \<lparr>image_dir = [(''logo.png'', File ''PNG''), (''logo_1.png'', File ''PNG'')],
              diag = [ImageCopied ''logo.png'' ''logo.png'',
                      ImageCopied ''logo.png'' ''logo_1.png'']\<rparr>)\<close>
  by code_simp

section \<open>Rewriting a document twice\<close>

text \<open>
  Claim C3 states that the rewriter applied to its own output changes nothing. The guard
  for references that are already processed tests the text of the path for the prefix
  \<^verbatim>\<open>image/\<close>; a path that leads into the output image directory under another
  spelling, such as \<^verbatim>\<open>./image/pic.png\<close>, passes it. In the first run that reference is
  left alone, because \<^verbatim>\<open>image/pic.png\<close> does not exist yet when it is reached; the
  reference behind it then copies \<^verbatim>\<open>pic.png\<close> there. In the second run the file
  exists, is copied once more and the reference is rewritten.
\<close>

theorem second_run_changes_text:
  \<open>process_single_markdown pic_env empty_state ''![a](./image/pic.png) ![b](./pic.png)''
     = Inr (''![a](./image/pic.png) <img src="image/pic.png">'',
            \<lparr>image_dir = [(''pic.png'', File ''PNG'')],
              diag = [ImageCopied ''pic.png'' ''pic.png'']\<rparr>)
   \<and> process_single_markdown pic_env
        \<lparr>image_dir = [(''pic.png'', File ''PNG'')],
          diag = [ImageCopied ''pic.png'' ''pic.png'']\<rparr>
        ''![a](./image/pic.png) <img src="image/pic.png">''
     = Inr (''<img src="image/pic_1.png"> <img src="image/pic.png">'',
            \<lparr>image_dir = [(''pic.png'', File ''PNG''), (''pic_1.png'', File ''PNG'')],
              diag = [ImageCopied ''pic.png'' ''pic.png'',
                      ImageCopied ''pic.png'' ''pic_1.png'']\<rparr>)\<close>
  by code_simp

text \<open>
  What the claim rests on does hold: the tag the rewriter emits starts neither an embed
  reference nor a standard one, and a standard reference that begins with \<^verbatim>\<open>image/\<close> is
  skipped.
\<close>

lemma tag_starts_no_reference:
  "match_embed (''<img src='' @ rest) = None"
  "match_md_img (''<img src='' @ rest) = None"
  by (simp_all add: match_embed_def match_md_img_def startswith_def)

lemma rewritten_document_is_stable:
  \<open>process_single_markdown logo_env
       \<lparr>image_dir = [(''logo.png'', File ''PNG'')],
         diag = [ImageCopied ''logo.png'' ''logo.png'']\<rparr>
       ''see <img src="image/logo.png"> and ![x](image/logo.png)''
     = Inr (''see <img src="image/logo.png"> and ![x](image/logo.png)'',
            \<lparr>image_dir = [(''logo.png'', File ''PNG'')],
              diag = [ImageCopied ''logo.png'' ''logo.png'']\<rparr>)\<close>
  by code_simp

section \<open>Sanity of the two matchers\<close>

text \<open>
  A match is a prefix of the text it was found in, it is never empty, and it does not
  depend on what follows it; so \<^const>\<open>re_sub\<close> resumes right behind the matched text.
\<close>

lemma startswith_split: "startswith s p \<Longrightarrow> s = p @ drop (length p) s"
  by (metis append_take_drop_id startswith_def)

lemma match_embed_prefix:
  assumes "match_embed txt = Some m"
  shows "\<exists>rest. txt = group0 m @ rest" and "group0 m \<noteq> []"
proof -
  from assms have start: "startswith txt ''![[''"
    by (auto simp: match_embed_def split: if_splits)
  define body where "body = drop 3 txt"
  define tok where "tok = takeWhile tok_char body"
  define r where "r = dropWhile tok_char body"
  have whole: "txt = ''![['' @ tok @ r"
    using startswith_split [OF start] by (simp add: body_def tok_def r_def numeral_3_eq_3)
  from assms start obtain c r1 where r: "r = c # r1"
    by (cases r) (auto simp: match_embed_def Let_def body_def [symmetric] tok_def [symmetric]
        r_def [symmetric] split: if_splits)
  have "(\<exists>rest. txt = group0 m @ rest) \<and> group0 m \<noteq> []"
  proof (cases "c = CHR ''|''")
    case True
    define pb where "pb = takeWhile not_rbracket r1"
    define r2 where "r2 = dropWhile not_rbracket r1"
    have r1: "r1 = pb @ r2"
      by (simp add: pb_def r2_def)
    from assms start r True have close: "startswith r2 '']]''"
      and m: "m = \<lparr>group0 = ''![['' @ tok @ ''|'' @ pb @ '']]'', group1 = tok,
                    group2 = Some (''|'' @ pb)\<rparr>"
      by (auto simp: match_embed_def Let_def body_def [symmetric] tok_def [symmetric]
          r_def [symmetric] pb_def [symmetric] r2_def [symmetric] split: if_splits)
    have "txt = group0 m @ drop 2 r2"
      using whole r True r1 startswith_split [OF close] by (simp add: m numeral_2_eq_2)
    then show ?thesis
      by (auto simp: m)
  next
    case False
    from assms start r False have close: "startswith r '']]''"
      and m: "m = \<lparr>group0 = ''![['' @ tok @ '']]'', group1 = tok, group2 = None\<rparr>"
      by (auto simp: match_embed_def Let_def body_def [symmetric] tok_def [symmetric]
          r_def [symmetric] split: if_splits)
    have "txt = group0 m @ drop 2 r"
      using whole startswith_split [OF close] by (simp add: m numeral_2_eq_2)
    then show ?thesis
      by (auto simp: m)
  qed
  then show "\<exists>rest. txt = group0 m @ rest" and "group0 m \<noteq> []"
    by simp_all
qed

lemma match_md_img_prefix:
  assumes "match_md_img txt = Some m"
  shows "\<exists>rest. txt = group0 m @ rest" and "group0 m \<noteq> []"
proof -
  from assms have start: "startswith txt ''![''"
    by (auto simp: match_md_img_def split: if_splits)
  define body where "body = drop 2 txt"
  define alt where "alt = takeWhile not_rbracket body"
  define r where "r = dropWhile not_rbracket body"
  have whole: "txt = ''!['' @ alt @ r"
    using startswith_split [OF start] by (simp add: body_def alt_def r_def numeral_2_eq_2)
  from assms start have mid: "startswith r ''](''"
    by (auto simp: match_md_img_def Let_def body_def [symmetric] r_def [symmetric]
        split: if_splits)
  define r1 where "r1 = drop 2 r"
  define path where "path = takeWhile not_rparen r1"
  define r2 where "r2 = dropWhile not_rparen r1"
  have r: "r = '']('' @ path @ r2"
    using startswith_split [OF mid] by (simp add: r1_def path_def r2_def numeral_2_eq_2)
  from assms start mid have close: "startswith r2 '')''"
    and m: "m = \<lparr>group0 = ''!['' @ alt @ '']('' @ path @ '')'', group1 = path, group2 = None\<rparr>"
    by (auto simp: match_md_img_def Let_def body_def [symmetric] alt_def [symmetric]
        r_def [symmetric] r1_def [symmetric] path_def [symmetric] r2_def [symmetric]
        split: if_splits)
  have "txt = group0 m @ drop 1 r2"
    using whole r startswith_split [OF close] by (simp add: m)
  then show "\<exists>rest. txt = group0 m @ rest" and "group0 m \<noteq> []"
    by (auto simp: m)
qed

lemma three_same_named_sources:
  "copy_image_to_image_dir empty_state (''a.png'', File ''one'')
     = Inr (''a.png'', \<lparr>image_dir = [(''a.png'', File ''one'')],
                         diag = [ImageCopied ''a.png'' ''a.png'']\<rparr>)"
  "copy_image_to_image_dir
     \<lparr>image_dir = [(''a.png'', File ''one'')], diag = []\<rparr> (''a.png'', File ''two'')
     = Inr (''a_1.png'', \<lparr>image_dir = [(''a.png'', File ''one''), (''a_1.png'', File ''two'')],
                           diag = [ImageCopied ''a.png'' ''a_1.png'']\<rparr>)"
  "copy_image_to_image_dir
     \<lparr>image_dir = [(''a.png'', File ''one''), (''a_1.png'', File ''two'')], diag = []\<rparr>
     (''a.png'', File ''three'')
     = Inr (''a_2.png'', \<lparr>image_dir = [(''a.png'', File ''one''), (''a_1.png'', File ''two''),
                                         (''a_2.png'', File ''three'')],
                           diag = [ImageCopied ''a.png'' ''a_2.png'']\<rparr>)"
  by code_simp+

end
